theory Spec2Isabelle
  imports Main "HOL-Library.Multiset" "HOL-Library.Char_ord" "HOL-Library.List_Lexorder"
begin

section \<open>Strings of the platform\<close>

text \<open>
  JavaScript strings are modelled as \<^typ>\<open>string\<close>; the comparison \<open><\<close> of two strings is the
  lexicographic order on character codes. Case conversion and \<open>trim\<close> are written out for the
  ASCII range, characters outside of it are left as they are.
\<close>

definition toLowerCase_char :: "char \<Rightarrow> char" where
  "toLowerCase_char c =
     (let n = (of_char c :: nat) in if 65 \<le> n \<and> n \<le> 90 then char_of (n + 32) else c)"

definition toUpperCase_char :: "char \<Rightarrow> char" where
  "toUpperCase_char c =
     (let n = (of_char c :: nat) in if 97 \<le> n \<and> n \<le> 122 then char_of (n - 32) else c)"

definition toLowerCase :: "string \<Rightarrow> string" where
  "toLowerCase s = map toLowerCase_char s"

definition toUpperCase :: "string \<Rightarrow> string" where
  "toUpperCase s = map toUpperCase_char s"

definition is_space :: "char \<Rightarrow> bool" where
  "is_space c = (let n = (of_char c :: nat) in n = 32 \<or> (9 \<le> n \<and> n \<le> 13))"

definition trim :: "string \<Rightarrow> string" where
  "trim s = rev (dropWhile is_space (rev (dropWhile is_space s)))"

fun startsWith :: "string \<Rightarrow> string \<Rightarrow> bool" where
  "startsWith s [] = True"
| "startsWith [] (c # cs) = False"
| "startsWith (a # as) (c # cs) = (a = c \<and> startsWith as cs)"

text \<open>\<open>s.includes(q)\<close>: \<open>q\<close> occurs in \<open>s\<close> as a contiguous run of characters.\<close>

fun includes_str :: "string \<Rightarrow> string \<Rightarrow> bool" where
  "includes_str [] q = (q = [])"
| "includes_str (a # as) q = (startsWith (a # as) q \<or> includes_str as q)"

text \<open>\<open>x || ''\<close> on a field that may be missing.\<close>

definition or_empty :: "string option \<Rightarrow> string" where
  "or_empty x = (case x of None \<Rightarrow> [] | Some s \<Rightarrow> s)"

text \<open>Decimal rendering of a number, as string conversion and template literals produce it.\<close>

fun show_nat :: "nat \<Rightarrow> string" where
  "show_nat n = (if n < 10 then [char_of (48 + n)] else show_nat (n div 10) @ [char_of (48 + n mod 10)])"

definition show_int :: "int \<Rightarrow> string" where
  "show_int i = (if i < 0 then CHR ''-'' # show_nat (nat (- i)) else show_nat (nat i))"

section \<open>The page\<close>

text \<open>
  The ranking state of the program lives in the page itself. A tier is a \<open>div.tier\<close> with a
  \<open>data-tier\<close> attribute and one \<open>ul.player-list\<close> inside; the children of that list are the
  \<open>li.player\<close> elements. The tiers are the children of \<open>#tiers\<close>, in document order. The
  markup of the page is not part of the scripts, so the initial list of tiers is a parameter.
  The \<open>data-tier\<close> attribute is either the word \<open>unranked\<close> or the decimal numeral of an
  integer, as \<open>createTier\<close> writes it; tiers with any other attribute are outside the model.
  An element is given by the values of its attributes and its children. Where the scripts look
  an element up, the model takes the first match in document order, as the page does.

  Besides the tiers the page has other elements with an id; the scripts themselves look up
  \<open>#tiers\<close>, \<open>#add-tier\<close>, \<open>#save\<close>, \<open>#reset\<close> and \<open>#filter\<close>. Such an element is given by its id
  and the players that have been appended to it. These elements are taken to lie outside the
  tiers, and a player appended to one of them to come after the players of the lists in
  document order, as a child appended to \<open>#tiers\<close> does; such a player is in no tier.
\<close>

datatype tier_key = Unranked | Numbered int

text \<open>
  A record of the fetched mapping: the fields that the scripts read, each of which may be
  missing (or \<open>null\<close>, or empty, which \<open>||\<close> treats alike). A candidate, as
  \<open>populateUnranked\<close> builds it, is the record with the key of the mapping as \<open>id\<close>; the
  fetched records are taken to carry no \<open>id\<close> field of their own.
\<close>

record fetched_record =
  first_name :: "string option"
  last_name :: "string option"
  position :: "string option"
  team :: "string option"

record player = fetched_record +
  p_id :: string

text \<open>
  A rendered \<open>li.player\<close>: its data attributes, the text of its name span, the value of its rank
  input (\<open>None\<close> for the empty input, else the integer it shows) and \<open>style.display\<close>.
\<close>

record player_el =
  data_id :: string
  data_name :: string
  data_position :: string
  label :: string
  rank_value :: "int option"
  display :: string

record tier_el =
  data_tier :: tier_key
  list_id :: string
  players :: "player_el list"

text \<open>
  The parsed content of the storage item, see \<open>loadRankings\<close> below. Numbers are restricted to
  integers, and the entries of an object stand in the order in which \<open>Object.entries\<close>
  enumerates them.
\<close>

datatype json =
    JNull
  | JBool bool
  | JNumber int
  | JString string
  | JArray "json list"
  | JObject "(string \<times> json) list"

text \<open>
  The text stored under the key \<open>rankings\<close>, classified by what \<open>getItem\<close> and \<open>JSON.parse\<close>
  make of it: no item, the empty text, a text that \<open>JSON.parse\<close> rejects with a
  \<open>SyntaxError\<close>, or a text that parses to a value. \<open>JSON.parse (JSON.stringify v) = v\<close> for the
  objects of string arrays that \<open>saveRankings\<close> writes, so a successful write stores
  \<open>Parses v\<close>.
\<close>

datatype stored = Absent | Empty_text | Unparseable | Parses json

datatype error = SyntaxError | TypeError

text \<open>
  The state of the running page: the tiers, the module's global variables, the value of the
  name filter input, the storage item, whether storage accepts a write, whether the timer
  of \<open>delayedSave\<close> is armed, and the other elements of the page that have an id.
\<close>

record app =
  document :: "tier_el list"
  allPlayers :: "player list"
  currentDisplayArray :: "player list"
  displayedCount :: nat
  activePosFilter :: string
  filterInput :: string
  rankings :: stored
  storage_full :: bool
  saveTimeout :: bool
  elsewhere :: "(string \<times> player_el list) list"

definition DISPLAY_CHUNK :: int where
  "DISPLAY_CHUNK = 100"

definition LOAD_MORE_CHUNK :: int where
  "LOAD_MORE_CHUNK = 50"

subsection \<open>Queries on the page\<close>

text \<open>The tiers together with the other elements that have an id.\<close>

type_synonym page = "tier_el list \<times> (string \<times> player_el list) list"

definition page_of :: "app \<Rightarrow> page" where
  "page_of s = (document s, elsewhere s)"

definition put_page :: "page \<Rightarrow> app \<Rightarrow> app" where
  "put_page pg s = s\<lparr>document := fst pg, elsewhere := snd pg\<rparr>"

text \<open>The elements with an id that the scripts themselves look up.\<close>

definition page_elements :: "(string \<times> player_el list) list" where
  "page_elements = [(''tiers'', []), (''add-tier'', []), (''save'', []), (''reset'', []), (''filter'', [])]"

text \<open>The players in the lists of the tiers and their ids, and the players outside the lists.\<close>

definition all_players :: "tier_el list \<Rightarrow> player_el list" where
  "all_players d = concat (map players d)"

definition all_ids :: "tier_el list \<Rightarrow> string list" where
  "all_ids d = map data_id (all_players d)"

definition strays :: "(string \<times> player_el list) list \<Rightarrow> player_el list" where
  "strays others = concat (map snd others)"

text \<open>
  \<open>document.querySelector('.player[data-id="..."]')\<close>: the first match in document order. The
  ids are taken to be free of the characters that would end the quoted value inside the
  selector (double quote, backslash, line break), as the ids of the data source are.
\<close>

definition querySelector :: "string \<Rightarrow> page \<Rightarrow> player_el option" where
  "querySelector i pg = find (\<lambda>p. data_id p = i) (all_players (fst pg) @ strays (snd pg))"

text \<open>The first player with a given id among the players of the lists, and the first list with a given id.\<close>

definition query_player :: "string \<Rightarrow> tier_el list \<Rightarrow> player_el option" where
  "query_player i d = find (\<lambda>p. data_id p = i) (all_players d)"

definition find_list :: "string \<Rightarrow> tier_el list \<Rightarrow> tier_el option" where
  "find_list k d = find (\<lambda>t. list_id t = k) d"

text \<open>
  \<open>document.getElementById\<close>: the first element with the id, which is a player list (\<open>Inl\<close>)
  or another element (\<open>Inr\<close>). The ids of a document should be unique; where a list and
  another element have the same id, the list is taken to come first.
\<close>

definition getElementById :: "string \<Rightarrow> page \<Rightarrow> (tier_el + string \<times> player_el list) option" where
  "getElementById k pg =
     (case find_list k (fst pg) of
        Some t \<Rightarrow> Some (Inl t)
      | None \<Rightarrow> map_option Inr (find (\<lambda>e. fst e = k) (snd pg)))"

definition tier_ids :: "tier_el \<Rightarrow> string list" where
  "tier_ids t = map data_id (players t)"

fun map_first :: "('a \<Rightarrow> bool) \<Rightarrow> ('a \<Rightarrow> 'a) \<Rightarrow> 'a list \<Rightarrow> 'a list" where
  "map_first P f [] = []"
| "map_first P f (x # xs) = (if P x then f x # xs else x # map_first P f xs)"

text \<open>
  Taking an element out of the list that holds it, or out of wherever in the page it is, and
  \<open>target.appendChild(el)\<close> for the element \<open>target\<close> with a given id. \<open>appendChild\<close> of an
  element that is already in the page moves it.
\<close>

definition detach :: "player_el \<Rightarrow> tier_el list \<Rightarrow> tier_el list" where
  "detach el d = map_first (\<lambda>t. el \<in> set (players t)) (\<lambda>t. t\<lparr>players := remove1 el (players t)\<rparr>) d"

definition detach_page :: "player_el \<Rightarrow> page \<Rightarrow> page" where
  "detach_page el pg =
     (if el \<in> set (all_players (fst pg)) then (detach el (fst pg), snd pg)
      else (fst pg, map_first (\<lambda>e. el \<in> set (snd e)) (\<lambda>e. (fst e, remove1 el (snd e))) (snd pg)))"

definition appendChild :: "string \<Rightarrow> player_el \<Rightarrow> page \<Rightarrow> page" where
  "appendChild k el pg =
     (let pg1 = detach_page el pg
      in if find_list k (fst pg1) \<noteq> None
         then (map_first (\<lambda>t. list_id t = k) (\<lambda>t. t\<lparr>players := players t @ [el]\<rparr>) (fst pg1), snd pg1)
         else (fst pg1, map_first (\<lambda>e. fst e = k) (\<lambda>e. (fst e, snd e @ [el])) (snd pg1)))"

subsection \<open>createPlayerElement\<close>

definition fullName :: "player \<Rightarrow> string" where
  "fullName p = trim (or_empty (first_name p) @ '' '' @ or_empty (last_name p))"

definition createPlayerElement :: "string \<Rightarrow> player \<Rightarrow> player_el" where
  "createPlayerElement i p =
     \<lparr> data_id = i,
       data_name = toLowerCase (fullName p),
       data_position = toUpperCase (or_empty (position p)),
       label = fullName p @ (if or_empty (team p) = [] then [] else '' ('' @ or_empty (team p) @ '')''),
       rank_value = None,
       display = [] \<rparr>"

subsection \<open>updateRanks\<close>

text \<open>
  \<open>updateRanks\<close> writes \<open>i + 1\<close> into the rank input of the \<open>i\<close>-th player of every tier but
  the unranked one, which it leaves as it is. The write happens in the next animation frame;
  the model applies it at once.
\<close>

definition number_players :: "player_el list \<Rightarrow> player_el list" where
  "number_players ps = map (\<lambda>(i, p). p\<lparr>rank_value := Some (int i + 1)\<rparr>) (enumerate 0 ps)"

definition updateRanks :: "tier_el list \<Rightarrow> tier_el list" where
  "updateRanks d =
     map (\<lambda>t. if data_tier t = Unranked then t else t\<lparr>players := number_players (players t)\<rparr>) d"

subsection \<open>delayedSave\<close>

definition delayedSave :: "app \<Rightarrow> app" where
  "delayedSave s = s\<lparr>saveTimeout := True\<rparr>"

subsection \<open>handleRankInputChange\<close>

text \<open>
  The handler of the \<open>change\<close> event of a rank input. The element \<open>player\<close> is named by its
  \<open>data-id\<close>, and \<open>v\<close> is what \<open>parseInt(input.value)\<close> gives: \<open>None\<close> for \<open>NaN\<close>.
\<close>

definition closest_tier :: "string \<Rightarrow> tier_el list \<Rightarrow> tier_el option" where
  "closest_tier i d = find (\<lambda>t. i \<in> set (tier_ids t)) d"

definition indexOf :: "string \<Rightarrow> player_el list \<Rightarrow> int" where
  "indexOf i ps =
     (if i \<in> set (map data_id ps) then int (length (takeWhile (\<lambda>p. data_id p \<noteq> i) ps)) else - 1)"

definition nth_or_null :: "'a list \<Rightarrow> int \<Rightarrow> 'a option" where
  "nth_or_null xs i = (if 0 \<le> i \<and> i < int (length xs) then Some (xs ! nat i) else None)"

text \<open>
  \<open>list.insertBefore(el, ref)\<close> for a child \<open>el\<close> of the list: the element is taken out of the
  list and put back in front of \<open>ref\<close>, or at the end when \<open>ref\<close> is \<open>null\<close>.
\<close>

definition insertBefore :: "player_el \<Rightarrow> player_el option \<Rightarrow> player_el list \<Rightarrow> player_el list" where
  "insertBefore el ref ps =
     (if ref = Some el then ps
      else
        let rest = remove1 el ps in
        (case ref of
           None \<Rightarrow> rest @ [el]
         | Some r \<Rightarrow> takeWhile (\<lambda>p. p \<noteq> r) rest @ el # dropWhile (\<lambda>p. p \<noteq> r) rest))"

text \<open>Lines 192 to 194: the requested rank, brought into the range of the list.\<close>

definition newRank :: "int option \<Rightarrow> nat \<Rightarrow> int" where
  "newRank v len =
     (let r = (case v of None \<Rightarrow> 1 | Some n \<Rightarrow> if n < 1 then 1 else n)
      in if r > int len then int len else r)"

definition handleRankInputChange :: "string \<Rightarrow> int option \<Rightarrow> app \<Rightarrow> app" where
  "handleRankInputChange i v s =
     (case closest_tier i (document s) of
        None \<Rightarrow> s
      | Some tier \<Rightarrow>
          if data_tier tier = Unranked then s
          else
            let ps = players tier;
                r = newRank v (length ps);
                currentIndex = indexOf i ps
            in if currentIndex = r - 1 then s\<lparr>document := updateRanks (document s)\<rparr>
               else
                 (case find (\<lambda>p. data_id p = i) ps of
                    None \<Rightarrow> s
                  | Some el \<Rightarrow>
                      delayedSave
                        (s\<lparr>document :=
                             updateRanks
                               (map_first (\<lambda>t. i \<in> set (tier_ids t))
                                  (\<lambda>t. t\<lparr>players := insertBefore el (nth_or_null ps (r - 1)) (players t)\<rparr>)
                                  (document s))\<rparr>)))"

text \<open>The rank of a candidate as the page shows it: the value of its rank input.\<close>

definition rank_of :: "string \<Rightarrow> tier_el list \<Rightarrow> int option" where
  "rank_of i d = (case query_player i d of None \<Rightarrow> None | Some p \<Rightarrow> rank_value p)"

subsection \<open>createTier and the add-tier button\<close>

definition createTier :: "int \<Rightarrow> tier_el list \<Rightarrow> tier_el list" where
  "createTier number d =
     (let tierDiv = \<lparr> data_tier = Numbered number, list_id = ''tier-'' @ show_int number, players = [] \<rparr>
      in if find (\<lambda>t. data_tier t = Unranked) d \<noteq> None
         then takeWhile (\<lambda>t. data_tier t \<noteq> Unranked) d @ tierDiv # dropWhile (\<lambda>t. data_tier t \<noteq> Unranked) d
         else d @ [tierDiv])"

definition existingTiers :: "tier_el list \<Rightarrow> int list" where
  "existingTiers d = concat (map (\<lambda>t. case data_tier t of Unranked \<Rightarrow> [] | Numbered n \<Rightarrow> [n]) d)"

definition newTierNumber :: "tier_el list \<Rightarrow> int" where
  "newTierNumber d = (case existingTiers d of [] \<Rightarrow> 1 | n # ns \<Rightarrow> fold max ns n + 1)"

definition addTier_click :: "app \<Rightarrow> app" where
  "addTier_click s = delayedSave (s\<lparr>document := createTier (newTierNumber (document s)) (document s)\<rparr>)"

subsection \<open>saveRankings\<close>

text \<open>
  \<open>obj[k] = v\<close> on an object whose keys are kept in the order of their first assignment, as
  they are for keys that are not array indices (the ids of the lists begin with \<open>tier-\<close>).
\<close>

fun set_property :: "string \<Rightarrow> 'v \<Rightarrow> (string \<times> 'v) list \<Rightarrow> (string \<times> 'v) list" where
  "set_property k v [] = [(k, v)]"
| "set_property k v ((k', v') # kvs) =
     (if k' = k then (k, v) # kvs else (k', v') # set_property k v kvs)"

definition tiers_object :: "tier_el list \<Rightarrow> (string \<times> json) list" where
  "tiers_object d =
     foldl (\<lambda>tiers t. set_property (list_id t) (JArray (map JString (tier_ids t))) tiers) [] d"

text \<open>A write that storage refuses is caught and leaves the item as it was.\<close>

definition saveRankings :: "app \<Rightarrow> app" where
  "saveRankings s =
     (if storage_full s then s else s\<lparr>rankings := Parses (JObject (tiers_object (document s)))\<rparr>)"

subsection \<open>loadRankings\<close>

fun join_comma :: "string list \<Rightarrow> string" where
  "join_comma [] = []"
| "join_comma [x] = x"
| "join_comma (x # y # ys) = x @ '','' @ join_comma (y # ys)"

text \<open>The string a value becomes inside a template literal.\<close>

fun toString :: "json \<Rightarrow> string" where
  "toString JNull = ''null''"
| "toString (JBool b) = (if b then ''true'' else ''false'')"
| "toString (JNumber n) = show_int n"
| "toString (JString s) = s"
| "toString (JArray xs) = join_comma (map (\<lambda>x. if x = JNull then [] else toString x) xs)"
| "toString (JObject kvs) = ''[object Object]''"

definition falsy :: "json \<Rightarrow> bool" where
  "falsy v = (v = JNull \<or> v = JBool False \<or> v = JNumber 0 \<or> v = JString [])"

definition Object_entries :: "json \<Rightarrow> (string \<times> json) list" where
  "Object_entries v =
     (case v of
        JObject kvs \<Rightarrow> kvs
      | JArray xs \<Rightarrow> map (\<lambda>(n, x). (show_nat n, x)) (enumerate 0 xs)
      | JString cs \<Rightarrow> map (\<lambda>(n, c). (show_nat n, JString [c])) (enumerate 0 cs)
      | _ \<Rightarrow> [])"

text \<open>
  The body of the inner \<open>forEach\<close>: a player found in the page is moved to the end of the
  element that \<open>getElementById\<close> found.
\<close>

definition restore_player :: "string \<Rightarrow> json \<Rightarrow> page \<Rightarrow> page" where
  "restore_player tierId i pg =
     (case querySelector (toString i) pg of
        Some player \<Rightarrow> appendChild tierId player pg
      | None \<Rightarrow> pg)"

text \<open>
  The loop over the entries. \<open>playerIds.forEach\<close> exists for arrays only; on any other value
  the call throws a \<open>TypeError\<close>, and the page stays as the loop left it.
\<close>

fun load_entries :: "(string \<times> json) list \<Rightarrow> page \<Rightarrow> (error \<times> page) + page" where
  "load_entries [] pg = Inr pg"
| "load_entries ((tierId, playerIds) # rest) pg =
     (case getElementById tierId pg of
        None \<Rightarrow> load_entries rest pg
      | Some list \<Rightarrow>
          (case playerIds of
             JArray ids \<Rightarrow> load_entries rest (foldl (\<lambda>pg' i. restore_player tierId i pg') pg ids)
           | _ \<Rightarrow> Inl (TypeError, pg)))"

text \<open>\<open>JSON.parse(localStorage.getItem('rankings') || '{}')\<close>\<close>

definition parse_rankings :: "stored \<Rightarrow> error + json" where
  "parse_rankings item =
     (case item of
        Absent \<Rightarrow> Inr (JObject [])
      | Empty_text \<Rightarrow> Inr (JObject [])
      | Unparseable \<Rightarrow> Inl SyntaxError
      | Parses v \<Rightarrow> Inr v)"

text \<open>
  The result is \<open>Inr\<close> of the state when \<open>loadRankings\<close> returns, and \<open>Inl\<close> of the exception
  and the state it leaves behind when it throws.
\<close>

definition loadRankings :: "app \<Rightarrow> (error \<times> app) + app" where
  "loadRankings s =
     (case parse_rankings (rankings s) of
        Inl e \<Rightarrow> Inl (e, s)
      | Inr saved \<Rightarrow>
          if falsy saved then Inr s
          else
            (case load_entries (Object_entries saved) (page_of s) of
               Inl (e, pg) \<Rightarrow> Inl (e, put_page pg s)
             | Inr pg \<Rightarrow> Inr (put_page pg s)))"

subsection \<open>renderInitialPlayers and renderMorePlayers\<close>

text \<open>\<open>Array.prototype.slice(begin, end)\<close>, negative indices counting from the end.\<close>

definition relative_index :: "int \<Rightarrow> nat \<Rightarrow> nat" where
  "relative_index i len = (if i < 0 then nat (max (int len + i) 0) else min (nat i) len)"

definition slice :: "'a list \<Rightarrow> int \<Rightarrow> int \<Rightarrow> 'a list" where
  "slice xs b e =
     (let k = relative_index b (length xs); final = relative_index e (length xs)
      in take (final - k) (drop k xs))"

text \<open>The body of the \<open>forEach\<close> that renders a candidate unless its id is in the page already.\<close>

definition render_player :: "player \<Rightarrow> page \<Rightarrow> page" where
  "render_player p pg =
     (if querySelector (p_id p) pg = None
      then appendChild ''tier-unranked'' (createPlayerElement (p_id p) p) pg
      else pg)"

definition renderMorePlayers :: "int \<Rightarrow> app \<Rightarrow> app" where
  "renderMorePlayers limit s =
     (case getElementById ''tier-unranked'' (page_of s) of
        None \<Rightarrow> s
      | Some unrankedList \<Rightarrow>
          let sl = slice (currentDisplayArray s) (int (displayedCount s)) (int (displayedCount s) + limit)
          in (put_page (foldl (\<lambda>pg p. render_player p pg) (page_of s) sl) s)
               \<lparr>displayedCount := displayedCount s + length sl\<rparr>)"

definition renderInitialPlayers :: "app \<Rightarrow> app" where
  "renderInitialPlayers s =
     renderMorePlayers DISPLAY_CHUNK (s\<lparr>currentDisplayArray := allPlayers s, displayedCount := 0\<rparr>)"

subsection \<open>applyFilters\<close>

definition matchesName :: "string \<Rightarrow> player_el \<Rightarrow> bool" where
  "matchesName nameSearch p = (nameSearch = [] \<or> includes_str (data_name p) nameSearch)"

definition matchesPos :: "string \<Rightarrow> player_el \<Rightarrow> bool" where
  "matchesPos posFilter p = (posFilter = [] \<or> toUpperCase (data_position p) = posFilter)"

text \<open>What \<open>applyFilters\<close> decides for one player, from the value of the filter input and \<open>activePosFilter\<close>.\<close>

definition shown :: "string \<Rightarrow> string \<Rightarrow> player_el \<Rightarrow> bool" where
  "shown filterValue posFilter p = (matchesName (toLowerCase filterValue) p \<and> matchesPos posFilter p)"

definition applyFilters :: "app \<Rightarrow> app" where
  "applyFilters s =
     s\<lparr>document :=
         map (\<lambda>t. t\<lparr>players :=
                map (\<lambda>p. p\<lparr>display := (if shown (filterInput s) (activePosFilter s) p then [] else ''none'')\<rparr>)
                  (players t)\<rparr>)
           (document s),
       elsewhere :=
         map (\<lambda>e. (fst e,
                map (\<lambda>p. p\<lparr>display := (if shown (filterInput s) (activePosFilter s) p then [] else ''none'')\<rparr>)
                  (snd e)))
           (elsewhere s)\<rparr>"

text \<open>
  The click handler of a position button with the attribute \<open>data-pos\<close>, and the input handler
  of the name filter, whose delay of 150 ms the model leaves out.
\<close>

definition posBtn_click :: "string \<Rightarrow> app \<Rightarrow> app" where
  "posBtn_click pos s = applyFilters (s\<lparr>activePosFilter := (if pos = [] then [] else toUpperCase pos)\<rparr>)"

definition filter_input :: "string \<Rightarrow> app \<Rightarrow> app" where
  "filter_input q s = applyFilters (s\<lparr>filterInput := q\<rparr>)"

subsection \<open>populateUnranked\<close>

text \<open>
  \<open>Array.prototype.sort\<close> with a comparator is stable; for a consistent comparator its result
  is the one stable sorted arrangement, which inserting the elements from the right computes.
\<close>

fun insert_by :: "('a \<Rightarrow> 'a \<Rightarrow> int) \<Rightarrow> 'a \<Rightarrow> 'a list \<Rightarrow> 'a list" where
  "insert_by cmp x [] = [x]"
| "insert_by cmp x (y # ys) = (if cmp x y \<le> 0 then x # y # ys else y # insert_by cmp x ys)"

definition sort_by :: "('a \<Rightarrow> 'a \<Rightarrow> int) \<Rightarrow> 'a list \<Rightarrow> 'a list" where
  "sort_by cmp xs = foldr (insert_by cmp) xs []"

definition lastKey :: "player \<Rightarrow> string" where
  "lastKey p = toLowerCase (or_empty (last_name p))"

definition firstKey :: "player \<Rightarrow> string" where
  "firstKey p = toLowerCase (or_empty (first_name p))"

text \<open>
  The comparator of the sort. \<open>localeCompare\<close> depends on the locale of the browser and is a
  parameter of the model.
\<close>

definition compare_players :: "(string \<Rightarrow> string \<Rightarrow> int) \<Rightarrow> player \<Rightarrow> player \<Rightarrow> int" where
  "compare_players localeCompare a b =
     (let la = lastKey a; lb = lastKey b
      in if la < lb then - 1
         else if la > lb then 1
         else localeCompare (firstKey a) (firstKey b))"

definition with_id :: "string \<times> fetched_record \<Rightarrow> player" where
  "with_id e =
     \<lparr> first_name = first_name (snd e), last_name = last_name (snd e),
       position = position (snd e), team = team (snd e), p_id = fst e \<rparr>"

definition wanted_position :: "player \<Rightarrow> bool" where
  "wanted_position p = (toUpperCase (or_empty (position p)) \<in> set [''QB'', ''RB'', ''WR'', ''TE''])"

text \<open>The fetched mapping is given by its entries, in the order of \<open>Object.entries\<close>.\<close>

definition build_allPlayers ::
  "(string \<Rightarrow> string \<Rightarrow> int) \<Rightarrow> (string \<times> fetched_record) list \<Rightarrow> player list" where
  "build_allPlayers localeCompare playersObj =
     sort_by (compare_players localeCompare) (filter wanted_position (map with_id playersObj))"

definition load_then_rank :: "app \<Rightarrow> (error \<times> app) + app" where
  "load_then_rank s =
     (case loadRankings s of
        Inl thrown \<Rightarrow> Inl thrown
      | Inr s' \<Rightarrow> Inr (s'\<lparr>document := updateRanks (document s')\<rparr>))"

text \<open>
  Without an element \<open>tier-unranked\<close> in the page, \<open>unrankedList\<close> is \<open>null\<close> and the first
  candidate to render throws a \<open>TypeError\<close>.
\<close>

definition populateUnranked ::
  "(string \<Rightarrow> string \<Rightarrow> int) \<Rightarrow> (string \<times> fetched_record) list \<Rightarrow> app \<Rightarrow> (error \<times> app) + app" where
  "populateUnranked localeCompare playersObj s =
     (let s1 = s\<lparr>allPlayers := build_allPlayers localeCompare playersObj\<rparr>
      in case getElementById ''tier-unranked'' (page_of s1) of
           None \<Rightarrow>
             if list_ex (\<lambda>p. querySelector (p_id p) (page_of s1) = None) (allPlayers s1)
             then Inl (TypeError, s1)
             else load_then_rank s1
         | Some unrankedList \<Rightarrow>
             load_then_rank
               (put_page (foldl (\<lambda>pg p. render_player p pg) (page_of s1) (allPlayers s1)) s1))"

text \<open>The state in which a call leaves the page, whether it returned or threw.\<close>

definition state_after :: "(error \<times> app) + app \<Rightarrow> app" where
  "state_after r = (case r of Inl (e, s) \<Rightarrow> s | Inr s \<Rightarrow> s)"

subsection \<open>Loading the page, and the events after it\<close>

text \<open>
  A page load starts from the markup \<open>html\<close>, the content of storage and the fetched mapping,
  and runs \<open>populateUnranked\<close>. \<open>resetRankings\<close> removes the storage item and loads the page
  again. The load runs only after the scripts have used \<open>#add-tier\<close>, \<open>#save\<close>, \<open>#reset\<close> and
  \<open>#filter\<close>, so these elements are in the page; \<open>page_load_with\<close> is the load of a page
  whose markup has the further elements \<open>others\<close> with an id.
\<close>

definition fresh_page :: "tier_el list \<Rightarrow> stored \<Rightarrow> bool \<Rightarrow> app" where
  "fresh_page html item full =
     \<lparr> document = html, allPlayers = [], currentDisplayArray = [], displayedCount = 0,
       activePosFilter = [], filterInput = [], rankings = item, storage_full = full,
       saveTimeout = False, elsewhere = page_elements \<rparr>"

definition page_load_with ::
  "(string \<times> player_el list) list \<Rightarrow> (string \<Rightarrow> string \<Rightarrow> int) \<Rightarrow> tier_el list \<Rightarrow> stored \<Rightarrow> bool
     \<Rightarrow> (string \<times> fetched_record) list \<Rightarrow> (error \<times> app) + app" where
  "page_load_with others localeCompare html item full playersObj =
     populateUnranked localeCompare playersObj
       ((fresh_page html item full)\<lparr>elsewhere := page_elements @ others\<rparr>)"

definition page_load ::
  "(string \<Rightarrow> string \<Rightarrow> int) \<Rightarrow> tier_el list \<Rightarrow> stored \<Rightarrow> bool \<Rightarrow> (string \<times> fetched_record) list
     \<Rightarrow> (error \<times> app) + app" where
  "page_load localeCompare html item full playersObj =
     populateUnranked localeCompare playersObj (fresh_page html item full)"

text \<open>
  The drag library is not part of the scripts. What it does to the page is taken from its
  interface: it moves the dragged element to a position of a list of its choice and then calls
  \<open>onEnd\<close>; the position is counted after the element has been taken out. It drags the
  children of the lists it was created for, so a player outside the lists is not dragged.
\<close>

definition sortable_drop :: "string \<Rightarrow> string \<Rightarrow> nat \<Rightarrow> tier_el list \<Rightarrow> tier_el list" where
  "sortable_drop i k n d =
     (case query_player i d of
        None \<Rightarrow> d
      | Some el \<Rightarrow>
          if find_list k d = None then d
          else map_first (\<lambda>t. list_id t = k)
                 (\<lambda>t. t\<lparr>players := take n (players t) @ el # drop n (players t)\<rparr>) (detach el d))"

definition sortable_onEnd :: "app \<Rightarrow> app" where
  "sortable_onEnd s = delayedSave (s\<lparr>document := updateRanks (document s)\<rparr>)"

text \<open>
  Typing into a rank input changes its value and fires the \<open>change\<close> handler; the input is
  that of the first player with the id, in a list or outside the lists.
\<close>

definition set_rank_value :: "string \<Rightarrow> int option \<Rightarrow> tier_el list \<Rightarrow> tier_el list" where
  "set_rank_value i v d =
     map_first (\<lambda>t. i \<in> set (tier_ids t))
       (\<lambda>t. t\<lparr>players := map_first (\<lambda>p. data_id p = i) (\<lambda>p. p\<lparr>rank_value := v\<rparr>) (players t)\<rparr>) d"

definition type_rank :: "string \<Rightarrow> int option \<Rightarrow> page \<Rightarrow> page" where
  "type_rank i v pg =
     (if i \<in> set (all_ids (fst pg)) then (set_rank_value i v (fst pg), snd pg)
      else (fst pg,
            map_first (\<lambda>e. i \<in> set (map data_id (snd e)))
              (\<lambda>e. (fst e, map_first (\<lambda>p. data_id p = i) (\<lambda>p. p\<lparr>rank_value := v\<rparr>) (snd e)))
              (snd pg)))"

datatype event =
    AddTier
  | SaveButton
  | SaveTimer
  | RankInput string "int option"
  | Drop string string nat
  | Scroll
  | FilterInput string
  | PosButton string

fun handle :: "event \<Rightarrow> app \<Rightarrow> app" where
  "handle AddTier s = addTier_click s"
| "handle SaveButton s = saveRankings s"
| "handle SaveTimer s = (if saveTimeout s then saveRankings (s\<lparr>saveTimeout := False\<rparr>) else s)"
| "handle (RankInput i v) s = handleRankInputChange i v (put_page (type_rank i v (page_of s)) s)"
| "handle (Drop i k n) s = sortable_onEnd (s\<lparr>document := sortable_drop i k n (document s)\<rparr>)"
| "handle Scroll s = renderMorePlayers LOAD_MORE_CHUNK s"
| "handle (FilterInput q) s = filter_input q s"
| "handle (PosButton pos) s = posBtn_click pos s"

text \<open>
  The states of a page whose markup has the tiers \<open>html\<close> and the further elements \<open>others\<close>
  with an id, loaded with a storage item among \<open>items\<close>: those in which a page load leaves
  it, and those that an event or a further call of the two rendering functions reaches from
  there.
\<close>

inductive reachable ::
  "(stored \<Rightarrow> bool) \<Rightarrow> (string \<times> player_el list) list \<Rightarrow> tier_el list \<Rightarrow> app \<Rightarrow> bool"
  for items :: "stored \<Rightarrow> bool" and others :: "(string \<times> player_el list) list" and html :: "tier_el list"
where
  loaded: "items item \<Longrightarrow>
     reachable items others html (state_after (page_load_with others localeCompare html item full playersObj))"
| handled: "reachable items others html s \<Longrightarrow> reachable items others html (handle e s)"
| revealed: "reachable items others html s \<Longrightarrow> reachable items others html (renderMorePlayers limit s)"
| revealed_initial: "reachable items others html s \<Longrightarrow> reachable items others html (renderInitialPlayers s)"

text \<open>
  The storage items none of whose keys is the id of one of the given elements. Every item
  that \<open>saveRankings\<close> writes has the ids of player lists as its keys.
\<close>

definition names_none_of :: "(string \<times> player_el list) list \<Rightarrow> stored \<Rightarrow> bool" where
  "names_none_of elements item =
     (case parse_rankings item of
        Inl e \<Rightarrow> True
      | Inr saved \<Rightarrow> list_all (\<lambda>e. fst e \<notin> set (map fst elements)) (Object_entries saved))"

section \<open>Example pages\<close>

definition li :: "string \<Rightarrow> int option \<Rightarrow> player_el" where
  "li i r =
     \<lparr> data_id = i, data_name = toLowerCase i, data_position = ''QB'', label = i,
       rank_value = r, display = [] \<rparr>"

definition tier1 :: "player_el list \<Rightarrow> tier_el" where
  "tier1 ps = \<lparr> data_tier = Numbered 1, list_id = ''tier-1'', players = ps \<rparr>"

definition unranked :: "player_el list \<Rightarrow> tier_el" where
  "unranked ps = \<lparr> data_tier = Unranked, list_id = ''tier-unranked'', players = ps \<rparr>"

text \<open>Tier 1 holds X, Y and Z with their ranks shown, and A is unranked.\<close>

definition page_xyz :: "tier_el list" where
  "page_xyz = [tier1 [li ''X'' (Some 1), li ''Y'' (Some 2), li ''Z'' (Some 3)], unranked [li ''A'' None]]"

definition app_xyz :: app where
  "app_xyz = fresh_page page_xyz Absent False"

text \<open>X and Y stand in tier 1 with outdated rank inputs; A was ranked once and is unranked now.\<close>

definition page_stale :: "tier_el list" where
  "page_stale = [tier1 [li ''X'' None, li ''Y'' (Some 1)], unranked [li ''A'' (Some 2)]]"

text \<open>A run of the materializer: \<open>renderMorePlayers\<close> called with the limits \<open>ns\<close>, one after the other.\<close>

definition reveal_all :: "int list \<Rightarrow> app \<Rightarrow> app" where
  "reveal_all ns s = foldl (\<lambda>s' n. renderMorePlayers n s') s ns"


definition mahomes :: player where
  "mahomes = \<lparr> first_name = Some ''Patrick'', last_name = Some ''Mahomes'', position = Some ''QB'',
               team = Some ''KC'', p_id = ''4046'' \<rparr>"

definition mahomes_like :: player where
  "mahomes_like = \<lparr> first_name = Some ''Mahomes'', last_name = Some ''Like'', position = Some ''WR'',
               team = None, p_id = ''77'' \<rparr>"

text \<open>
  The order of the claim: by last name without regard to case, and by first name where the
  last names are equal.
\<close>

definition in_order :: "(string \<Rightarrow> string \<Rightarrow> int) \<Rightarrow> player \<Rightarrow> player \<Rightarrow> bool" where
  "in_order localeCompare a b =
     (lastKey a < lastKey b \<or>
      (lastKey a = lastKey b \<and> localeCompare (firstKey a) (firstKey b) \<le> 0))"

text \<open>A comparison by character codes, which is what \<open>localeCompare\<close> does on plain lower-case letters.\<close>

definition compare_codes :: "string \<Rightarrow> string \<Rightarrow> int" where
  "compare_codes x y = (if x < y then - 1 else if x = y then 0 else 1)"

definition fetched_example :: "(string \<times> fetched_record) list" where
  "fetched_example =
     [(''1'', \<lparr> first_name = Some ''Travis'', last_name = Some ''Kelce'', position = Some ''TE'', team = Some ''KC'' \<rparr>),
      (''2'', \<lparr> first_name = Some ''Harrison'', last_name = Some ''Butker'', position = Some ''K'', team = Some ''KC'' \<rparr>),
      (''3'', \<lparr> first_name = Some ''Jason'', last_name = Some ''kelce'', position = Some ''qb'', team = None \<rparr>),
      (''4'', \<lparr> first_name = Some ''Josh'', last_name = Some ''Allen'', position = Some ''QB'', team = Some ''BUF'' \<rparr>),
      (''5'', \<lparr> first_name = Some ''Nobody'', last_name = None, position = None, team = None \<rparr>)]"

text \<open>The markup the page is taken to start from in the examples: an empty tier 1 and the empty unranked tier.\<close>

definition html_example :: "tier_el list" where
  "html_example = [tier1 [], unranked []]"

text \<open>The layout that \<open>createTier\<close> keeps: the unranked tier is the last tier and the only unranked one.\<close>

definition unranked_last :: "tier_el list \<Rightarrow> bool" where
  "unranked_last d =
     (d \<noteq> [] \<and> data_tier (last d) = Unranked \<and> list_all (\<lambda>t. data_tier t \<noteq> Unranked) (butlast d))"

text \<open>
  A session on the example markup in which candidate 4 is dragged into tier 1 and then back
  to the top of the unranked tier. Then a storage item whose only key is the id of the
  container of the tiers, and the state in which a load of the example markup with this item
  and the fetched example leaves the page.
\<close>

definition returned_session :: app where
  "returned_session =
     handle (Drop ''4'' ''tier-unranked'' 0) (handle (Drop ''4'' ''tier-1'' 0)
       (state_after (page_load compare_codes html_example Absent False fetched_example)))"

definition foreign_item :: stored where
  "foreign_item = Parses (JObject [(''tiers'', JArray [JString ''4''])])"

definition foreign_session :: app where
  "foreign_session = state_after (page_load compare_codes html_example foreign_item False fetched_example)"

section \<open>The orders of the tiers\<close>

text \<open>The order of the list with a given id: the ids of its players, and nothing for a list the page does not have.\<close>

definition order_of :: "string \<Rightarrow> tier_el list \<Rightarrow> string list" where
  "order_of k d = (case find_list k d of None \<Rightarrow> [] | Some t \<Rightarrow> tier_ids t)"

text \<open>The lists of a page with their orders.\<close>

definition layout :: "tier_el list \<Rightarrow> (string \<times> string list) list" where
  "layout d = map (\<lambda>t. (list_id t, tier_ids t)) d"

text \<open>On the orders, moving the id \<open>i\<close> to the end of the list \<open>k\<close>, and doing so for several ids in turn.\<close>

definition move_id :: "string \<Rightarrow> string \<Rightarrow> (string \<times> string list) list \<Rightarrow> (string \<times> string list) list" where
  "move_id k i v =
     map (\<lambda>(k', xs). (k', if k' = k then filter (\<lambda>j. j \<noteq> i) xs @ [i] else filter (\<lambda>j. j \<noteq> i) xs)) v"

definition move_ids :: "string \<Rightarrow> string list \<Rightarrow> (string \<times> string list) list \<Rightarrow> (string \<times> string list) list" where
  "move_ids k is v =
     map (\<lambda>(k', xs). (k', if k' = k then filter (\<lambda>j. j \<notin> set is) xs @ is else filter (\<lambda>j. j \<notin> set is) xs)) v"

text \<open>The ids that the page \<open>d\<close> holds in lists that the markup \<open>html\<close> has as well.\<close>

definition restorable :: "tier_el list \<Rightarrow> tier_el list \<Rightarrow> string list" where
  "restorable html d = concat (map tier_ids (filter (\<lambda>t. list_id t \<in> set (map list_id html)) d))"

definition order_in :: "string \<Rightarrow> (string \<times> string list) list \<Rightarrow> string list" where
  "order_in k v = (case map_of v k of None \<Rightarrow> [] | Some xs \<Rightarrow> xs)"

text \<open>The entries of the object that \<open>saveRankings\<close> writes for lists with the given orders.\<close>

definition json_entries :: "(string \<times> string list) list \<Rightarrow> (string \<times> json) list" where
  "json_entries v = map (\<lambda>(k, js). (k, JArray (map JString js))) v"

text \<open>
  On the orders, the loop of \<open>loadRankings\<close> over such entries: an entry for a list that the
  page has moves those of its ids that are in the page to the end of that list, in their order.
\<close>

fun restore_entries ::
  "(string \<times> string list) list \<Rightarrow> (string \<times> string list) list \<Rightarrow> (string \<times> string list) list" where
  "restore_entries [] v = v"
| "restore_entries ((k, js) # rest) v =
     restore_entries rest
       (if k \<in> set (map fst v)
        then move_ids k (filter (\<lambda>i. i \<in> set (concat (map snd v))) js) v
        else v)"

text \<open>The ids of the entries \<open>es\<close> that stand under a key of the layout \<open>v\<close>.\<close>

definition restored_ids :: "(string \<times> string list) list \<Rightarrow> (string \<times> string list) list \<Rightarrow> string list" where
  "restored_ids es v = concat (map snd (filter (\<lambda>e. fst e \<in> set (map fst v)) es))"

section \<open>Saving and loading again\<close>

text \<open>
  The page that a load of the markup \<open>html\<close> with the fetched mapping \<open>playersObj\<close> gives after
  the state \<open>s\<close> has been saved.
\<close>

definition reloaded ::
  "(string \<Rightarrow> string \<Rightarrow> int) \<Rightarrow> tier_el list \<Rightarrow> bool \<Rightarrow> (string \<times> fetched_record) list \<Rightarrow> app \<Rightarrow> app" where
  "reloaded localeCompare html full playersObj s =
     state_after (page_load localeCompare html (rankings (saveRankings s)) full playersObj)"

text \<open>
  The round trip in the words of the claim: every tier of the page \<open>before\<close> has, in the page
  \<open>after\<close>, its old order restricted to the ids of the pool (ids that the page did not hold
  before are not counted), and an old id that is not in the pool is in no tier afterwards.
\<close>

definition round_trip_reproduces :: "tier_el list \<Rightarrow> string list \<Rightarrow> tier_el list \<Rightarrow> bool" where
  "round_trip_reproduces before pool after =
     (list_all (\<lambda>t. filter (\<lambda>i. i \<in> set (all_ids before)) (order_of (list_id t) after) =
                     filter (\<lambda>i. i \<in> set pool) (tier_ids t)) before \<and>
      list_all (\<lambda>i. i \<in> set pool \<or> i \<notin> set (all_ids after)) (all_ids before))"

text \<open>
  A session on the example markup: the page is loaded with the fetched example, a second tier
  is added, one candidate is dragged into tier 1 and one into tier 2, and the rankings are
  saved. Then the page is loaded again with the same fetched mapping.
\<close>

definition saved_session :: app where
  "saved_session =
     handle SaveButton (handle (Drop ''3'' ''tier-2'' 0) (handle (Drop ''4'' ''tier-1'' 0) (handle AddTier
       (state_after (page_load compare_codes html_example Absent False fetched_example)))))"

definition reloaded_session :: app where
  "reloaded_session = reloaded compare_codes html_example False fetched_example saved_session"

section \<open>The lists of a page that has no player outside them\<close>

text \<open>
  While no player is outside the lists and the target is a list, moving a player changes
  the lists only. The functions below are that part of \<open>appendChild\<close>, of the body of the inner
  \<open>forEach\<close> of \<open>loadRankings\<close>, of its loop over the entries, and of the rendering of one
  player; the lemmas \<open>appendChild_lists\<close>, \<open>restore_player_lists_eq\<close>, \<open>load_entries_lists_eq\<close> and
  \<open>render_player_lists_eq\<close> relate them to the functions of the page.
\<close>

definition append_to_list :: "string \<Rightarrow> player_el \<Rightarrow> tier_el list \<Rightarrow> tier_el list" where
  "append_to_list k el d =
     map_first (\<lambda>t. list_id t = k) (\<lambda>t. t\<lparr>players := players t @ [el]\<rparr>) (detach el d)"

definition restore_player_lists :: "string \<Rightarrow> json \<Rightarrow> tier_el list \<Rightarrow> tier_el list" where
  "restore_player_lists tierId i d =
     (case query_player (toString i) d of
        Some player \<Rightarrow> append_to_list tierId player d
      | None \<Rightarrow> d)"

fun load_entries_lists :: "(string \<times> json) list \<Rightarrow> tier_el list \<Rightarrow> (error \<times> tier_el list) + tier_el list" where
  "load_entries_lists [] d = Inr d"
| "load_entries_lists ((tierId, playerIds) # rest) d =
     (case find_list tierId d of
        None \<Rightarrow> load_entries_lists rest d
      | Some list \<Rightarrow>
          (case playerIds of
             JArray ids \<Rightarrow> load_entries_lists rest (foldl (\<lambda>d' i. restore_player_lists tierId i d') d ids)
           | _ \<Rightarrow> Inl (TypeError, d)))"

definition render_player_lists :: "player \<Rightarrow> tier_el list \<Rightarrow> tier_el list" where
  "render_player_lists p d =
     (if query_player (p_id p) d = None
      then append_to_list ''tier-unranked'' (createPlayerElement (p_id p) p) d
      else d)"

section \<open>Properties\<close>

subsection \<open>The page of a state\<close>

lemma page_of_simps [simp]:
  "fst (page_of s) = document s"
  "snd (page_of s) = elsewhere s"
  by (simp_all add: page_of_def)

lemma put_page_simps [simp]:
  "document (put_page pg s) = fst pg"
  "elsewhere (put_page pg s) = snd pg"
  "allPlayers (put_page pg s) = allPlayers s"
  "currentDisplayArray (put_page pg s) = currentDisplayArray s"
  "displayedCount (put_page pg s) = displayedCount s"
  "activePosFilter (put_page pg s) = activePosFilter s"
  "filterInput (put_page pg s) = filterInput s"
  "rankings (put_page pg s) = rankings s"
  "storage_full (put_page pg s) = storage_full s"
  "saveTimeout (put_page pg s) = saveTimeout s"
  by (simp_all add: put_page_def)

lemma put_page_same [simp]: "put_page (page_of s) s = s"
  by (simp add: put_page_def page_of_def)

subsection \<open>Rank recomputation\<close>

lemma length_number_players [simp]: "length (number_players ps) = length ps"
  by (simp add: number_players_def)

lemma nth_number_players:
  "j < length ps \<Longrightarrow> number_players ps ! j = (ps ! j)\<lparr>rank_value := Some (int j + 1)\<rparr>"
  by (simp add: number_players_def nth_enumerate_eq)

lemma ids_number_players [simp]: "map data_id (number_players ps) = map data_id ps"
  by (rule nth_equalityI) (simp_all add: nth_number_players)

lemma ranks_number_players:
  "map rank_value (number_players ps) = map (\<lambda>n. Some (int n)) [1..<Suc (length ps)]"
proof (rule nth_equalityI)
  show "length (map rank_value (number_players ps)) = length (map (\<lambda>n. Some (int n)) [1..<Suc (length ps)])"
    by (simp del: upt_Suc)
next
  fix j assume "j < length (map rank_value (number_players ps))"
  then have j: "j < length ps" by simp
  then have "[1..<Suc (length ps)] ! j = Suc j"
    by (metis One_nat_def Suc_less_eq nth_upt plus_1_eq_Suc)
  with j show "map rank_value (number_players ps) ! j = map (\<lambda>n. Some (int n)) [1..<Suc (length ps)] ! j"
    by (simp add: nth_number_players del: upt_Suc)
qed

lemma number_players_idem [simp]: "number_players (number_players ps) = number_players ps"
  by (rule nth_equalityI) (simp_all add: nth_number_players)

lemma length_updateRanks [simp]: "length (updateRanks d) = length d"
  by (simp add: updateRanks_def)

lemma nth_updateRanks:
  "k < length d \<Longrightarrow> updateRanks d ! k =
     (if data_tier (d ! k) = Unranked then d ! k else (d ! k)\<lparr>players := number_players (players (d ! k))\<rparr>)"
  by (simp add: updateRanks_def)

lemma tier_ids_updateRanks [simp]: "map tier_ids (updateRanks d) = map tier_ids d"
  by (simp add: updateRanks_def tier_ids_def)

lemma updateRanks_idem [simp]: "updateRanks (updateRanks d) = updateRanks d"
  by (simp add: updateRanks_def)

text \<open>
  After \<open>updateRanks\<close> the tiers are the same tiers with the same orders. In every tier that
  is not the unranked one, the rank input of the player at index \<open>j\<close> holds \<open>j + 1\<close>, so the rank
  values of a tier with \<open>N\<close> members are, as a multiset, exactly \<open>1, ..., N\<close>. The unranked tier
  is returned as it was: \<open>updateRanks\<close> writes nothing into the rank inputs of its players, and
  clears none of them.
\<close>

lemma updateRanks_contiguous:
  "length (updateRanks d) = length d \<and>
   (\<forall>k < length d.
      data_tier (updateRanks d ! k) = data_tier (d ! k) \<and>
      list_id (updateRanks d ! k) = list_id (d ! k) \<and>
      tier_ids (updateRanks d ! k) = tier_ids (d ! k) \<and>
      (data_tier (d ! k) \<noteq> Unranked \<longrightarrow>
         (\<forall>j < length (players (d ! k)). rank_value (players (updateRanks d ! k) ! j) = Some (int j + 1)) \<and>
         mset (map rank_value (players (updateRanks d ! k))) =
           mset (map (\<lambda>n. Some (int n)) [1..<Suc (length (players (d ! k)))])) \<and>
      (data_tier (d ! k) = Unranked \<longrightarrow> updateRanks d ! k = d ! k))"
  by (simp add: nth_updateRanks tier_ids_def nth_number_players ranks_number_players)

lemma updateRanks_contiguous_example:
  "length page_stale = 2 \<and> data_tier (page_stale ! 0) \<noteq> Unranked \<and>
   map rank_value (players (page_stale ! 0)) = [None, Some 1] \<and>
   mset (map rank_value (players (updateRanks page_stale ! 0))) = {#Some 1, Some 2#} \<and>
   data_tier (page_stale ! 1) = Unranked \<and>
   map rank_value (players (updateRanks page_stale ! 1)) = [Some 2]"
proof -
  have len: "length page_stale = 2"
    by (simp add: page_stale_def)
  have t0: "data_tier (page_stale ! 0) \<noteq> Unranked" "length (players (page_stale ! 0)) = 2"
    "map rank_value (players (page_stale ! 0)) = [None, Some 1]"
    by (simp_all add: page_stale_def tier1_def li_def)
  have t1: "data_tier (page_stale ! 1) = Unranked" "map rank_value (players (page_stale ! 1)) = [Some 2]"
    by (simp_all add: page_stale_def unranked_def li_def)
  note T = updateRanks_contiguous [of page_stale, THEN conjunct2, rule_format]
  have u: "[1..<Suc 2] = [1, 2]"
    by (simp add: upt_rec)
  have "mset (map rank_value (players (updateRanks page_stale ! 0))) =
      mset (map (\<lambda>n. Some (int n)) [1..<Suc 2])"
    using T [of 0] len t0 by (simp del: upt_Suc)
  then have r0: "mset (map rank_value (players (updateRanks page_stale ! 0))) = {#Some 1, Some 2#}"
    unfolding u by simp
  have r1: "updateRanks page_stale ! 1 = page_stale ! 1"
    using T [of 1] len t1 by simp
  show ?thesis
    using len t0 t1 r0 r1 by simp
qed

text \<open>
  C5. The ranks of the tiers other than the unranked one are \<open>1, ..., N\<close> after every call of
  \<open>updateRanks\<close>, but a candidate of the unranked tier can have a rank. \<open>createPlayerElement\<close>
  gives a new candidate an empty rank input, and \<open>updateRanks\<close> returns from the unranked tier
  at once, so it never empties an input. In the example session candidate 4 is dragged into
  tier 1, where \<open>updateRanks\<close> writes rank 1 into its input, and then back into the unranked
  tier: after the \<open>updateRanks\<close> of that drop, and after any further call, candidate 4 stands
  in the unranked tier with rank 1, while the candidates that never left the tier have none.
\<close>

theorem updateRanks_keeps_rank_of_unranked:
  "map data_tier (document returned_session) = [Numbered 1, Unranked] \<and>
   map tier_ids (document returned_session) = [[], [''4'', ''3'', ''1'']] \<and>
   rank_of ''4'' (document returned_session) = Some 1 \<and>
   rank_of ''3'' (document returned_session) = None \<and>
   updateRanks (document returned_session) = document returned_session \<and>
   rank_of ''4'' (updateRanks (document returned_session)) = Some 1"
  by code_simp

subsection \<open>Manual ranks\<close>

text \<open>
  C6. When the requested rank, brought into range, is the position the candidate already has in
  its (ranked) tier, the handler recomputes the ranks and does nothing else: the orders of all
  tiers stay as they are, the page is the old page with its ranks recomputed, and neither the
  save timer nor the storage item changes. If the rank inputs were up to date the state does
  not change at all.
\<close>

theorem manual_rank_same_position:
  assumes "closest_tier i (document s) = Some tier"
    and "data_tier tier \<noteq> Unranked"
    and "newRank v (length (players tier)) = indexOf i (players tier) + 1"
  shows "map tier_ids (document (handleRankInputChange i v s)) = map tier_ids (document s) \<and>
    handleRankInputChange i v s = s\<lparr>document := updateRanks (document s)\<rparr> \<and>
    saveTimeout (handleRankInputChange i v s) = saveTimeout s \<and>
    rankings (handleRankInputChange i v s) = rankings s \<and>
    (updateRanks (document s) = document s \<longrightarrow> handleRankInputChange i v s = s)"
proof -
  have "handleRankInputChange i v s = s\<lparr>document := updateRanks (document s)\<rparr>"
    using assms by (simp add: handleRankInputChange_def)
  then show ?thesis
    by simp
qed

theorem manual_rank_same_position_witness:
  "closest_tier ''Y'' (document app_xyz) = Some (tier1 [li ''X'' (Some 1), li ''Y'' (Some 2), li ''Z'' (Some 3)]) \<and>
   newRank (Some 2) 3 = indexOf ''Y'' [li ''X'' (Some 1), li ''Y'' (Some 2), li ''Z'' (Some 3)] + 1 \<and>
   updateRanks (document app_xyz) = document app_xyz \<and>
   handleRankInputChange ''Y'' (Some 2) app_xyz = app_xyz"
proof -
  let ?t = "tier1 [li ''X'' (Some 1), li ''Y'' (Some 2), li ''Z'' (Some 3)]"
  have a: "closest_tier ''Y'' (document app_xyz) = Some ?t"
    by (simp add: app_xyz_def fresh_page_def page_xyz_def closest_tier_def tier_ids_def tier1_def li_def)
  have b: "data_tier ?t \<noteq> Unranked"
    by (simp add: tier1_def)
  have c: "newRank (Some 2) (length (players ?t)) = indexOf ''Y'' (players ?t) + 1"
    by (simp add: newRank_def indexOf_def tier1_def li_def)
  have d: "updateRanks (document app_xyz) = document app_xyz"
    by (simp add: app_xyz_def fresh_page_def page_xyz_def updateRanks_def number_players_def
        tier1_def unranked_def li_def)
  have c': "newRank (Some 2) 3 = indexOf ''Y'' [li ''X'' (Some 1), li ''Y'' (Some 2), li ''Z'' (Some 3)] + 1"
    by (simp add: newRank_def indexOf_def li_def)
  have "handleRankInputChange ''Y'' (Some 2) app_xyz = app_xyz"
    using manual_rank_same_position [OF a b c] d by simp
  then show ?thesis
    using a c' d by simp
qed

text \<open>
  C1. The handler does not always put the candidate at the requested rank. It inserts the
  element before the element that stood at index \<open>newRank - 1\<close> before the move; when the
  candidate moves down, taking it out shifts that element one place up, and the candidate ends
  one rank above the requested one. With X, Y, Z in tier 1, asking for rank 3 for X gives the
  order Y, X, Z, and X shows rank 2.
\<close>

theorem manual_rank_downwards_off_by_one:
  "closest_tier ''X'' (document app_xyz) \<noteq> None \<and>
   newRank (Some 3) 3 = 3 \<and>
   map tier_ids (document (handleRankInputChange ''X'' (Some 3) app_xyz)) = [[''Y'', ''X'', ''Z''], [''A'']] \<and>
   rank_of ''X'' (document (handleRankInputChange ''X'' (Some 3) app_xyz)) = Some 2"
  by (simp add: app_xyz_def page_xyz_def tier1_def unranked_def li_def fresh_page_def
      handleRankInputChange_def closest_tier_def tier_ids_def newRank_def indexOf_def
      nth_or_null_def insertBefore_def updateRanks_def number_players_def delayedSave_def
      rank_of_def query_player_def all_players_def)

subsection \<open>Adding a tier\<close>

lemma existingTiers_append [simp]: "existingTiers (xs @ ys) = existingTiers xs @ existingTiers ys"
  by (simp add: existingTiers_def)

lemma set_existingTiers: "set (existingTiers d) = {m. \<exists>t \<in> set d. data_tier t = Numbered m}"
  by (auto simp: existingTiers_def split: tier_key.splits)

lemma newTierNumber_eq:
  "newTierNumber d = (if existingTiers d = [] then 1 else Max (set (existingTiers d)) + 1)"
  by (cases "existingTiers d") (simp_all add: newTierNumber_def Max.set_eq_fold del: set_simps)

lemma createTier_before_unranked:
  assumes "data_tier u = Unranked" and "\<forall>t \<in> set numbered. data_tier t \<noteq> Unranked"
  shows "createTier n (numbered @ [u]) =
    numbered @ [\<lparr> data_tier = Numbered n, list_id = ''tier-'' @ show_int n, players = [] \<rparr>, u]"
proof -
  have "find (\<lambda>t. data_tier t = Unranked) (numbered @ [u]) \<noteq> None"
    using assms(1) by (auto simp: find_None_iff)
  moreover have "takeWhile (\<lambda>t. data_tier t \<noteq> Unranked) (numbered @ [u]) = numbered"
    using assms by (simp add: takeWhile_append2)
  moreover have "dropWhile (\<lambda>t. data_tier t \<noteq> Unranked) (numbered @ [u]) = [u]"
    using assms by (simp add: dropWhile_append2)
  ultimately show ?thesis
    by (simp add: createTier_def)
qed

text \<open>
  C9. On a page whose tiers are the numbered tiers followed by the unranked tier, the add-tier
  button puts one new, empty tier between the numbered tiers and the unranked tier and leaves
  the existing tiers in their order. Its number is 1 when there is no numbered tier, and
  otherwise one more than the highest existing number, so it is greater than all of them. No
  player moves.
\<close>

theorem addTier_after_highest_before_unranked:
  assumes "document s = numbered @ [u]"
    and "data_tier u = Unranked"
    and "\<forall>t \<in> set numbered. data_tier t \<noteq> Unranked"
  shows "document (addTier_click s) =
      numbered @ [\<lparr> data_tier = Numbered (newTierNumber (document s)),
                    list_id = ''tier-'' @ show_int (newTierNumber (document s)), players = [] \<rparr>, u] \<and>
    newTierNumber (document s) =
      (if numbered = [] then 1 else Max {m. \<exists>t \<in> set numbered. data_tier t = Numbered m} + 1) \<and>
    (\<forall>t \<in> set numbered. \<forall>m. data_tier t = Numbered m \<longrightarrow> m < newTierNumber (document s)) \<and>
    all_ids (document (addTier_click s)) = all_ids (document s)"
proof -
  have ex: "existingTiers (document s) = existingTiers numbered"
    using assms(1,2) by (simp add: existingTiers_def)
  have nonempty: "existingTiers numbered \<noteq> []" if "numbered \<noteq> []"
  proof -
    from that obtain t where t: "t \<in> set numbered" by (cases numbered) auto
    with assms(3) obtain m where "data_tier t = Numbered m" by (cases "data_tier t") auto
    with t have "m \<in> set (existingTiers numbered)" by (auto simp: set_existingTiers)
    then show ?thesis by auto
  qed
  have empty: "existingTiers numbered = []" if "numbered = []"
    using that by (simp add: existingTiers_def)
  have num: "newTierNumber (document s) =
      (if numbered = [] then 1 else Max {m. \<exists>t \<in> set numbered. data_tier t = Numbered m} + 1)"
    using nonempty empty by (auto simp: newTierNumber_eq ex set_existingTiers)
  have fin: "finite {m. \<exists>t \<in> set numbered. data_tier t = Numbered m}"
    using set_existingTiers [of numbered, symmetric] by (metis List.finite_set)
  have above: "\<forall>t \<in> set numbered. \<forall>m. data_tier t = Numbered m \<longrightarrow> m < newTierNumber (document s)"
  proof (intro ballI allI impI)
    fix t m assume t: "t \<in> set numbered" and m: "data_tier t = Numbered m"
    then have "m \<in> {m. \<exists>t \<in> set numbered. data_tier t = Numbered m}" by auto
    then have "m \<le> Max {m. \<exists>t \<in> set numbered. data_tier t = Numbered m}"
      using fin by (rule_tac Max_ge) auto
    moreover have "numbered \<noteq> []" using t by auto
    ultimately show "m < newTierNumber (document s)"
      using num by simp
  qed
  have doc: "document (addTier_click s) = createTier (newTierNumber (document s)) (numbered @ [u])"
    using assms(1) by (simp add: addTier_click_def delayedSave_def)
  show ?thesis
    using doc createTier_before_unranked [OF assms(2,3)] num above assms(1)
    by (simp add: all_ids_def all_players_def)
qed

theorem addTier_after_highest_before_unranked_witness:
  "document app_xyz = [tier1 [li ''X'' (Some 1), li ''Y'' (Some 2), li ''Z'' (Some 3)]] @ [unranked [li ''A'' None]] \<and>
   map data_tier (document (addTier_click app_xyz)) = [Numbered 1, Numbered 2, Unranked] \<and>
   map list_id (document (addTier_click app_xyz)) = [''tier-1'', ''tier-2'', ''tier-unranked'']"
proof -
  let ?n = "[tier1 [li ''X'' (Some 1), li ''Y'' (Some 2), li ''Z'' (Some 3)]]"
  let ?u = "unranked [li ''A'' None]"
  have a: "document app_xyz = ?n @ [?u]"
    by (simp add: app_xyz_def fresh_page_def page_xyz_def)
  have b: "data_tier ?u = Unranked"
    by (simp add: unranked_def)
  have c: "\<forall>t \<in> set ?n. data_tier t \<noteq> Unranked"
    by (simp add: tier1_def)
  have m: "{m. \<exists>t \<in> set ?n. data_tier t = Numbered m} = {1}"
    by (auto simp: tier1_def)
  have n: "newTierNumber (document app_xyz) = 2"
    using addTier_after_highest_before_unranked [OF a b c] unfolding m by simp
  have s: "show_int 2 = ''2''"
    by code_simp
  show ?thesis
    using addTier_after_highest_before_unranked [OF a b c] a unfolding n s
    by (simp add: tier1_def unranked_def)
qed

subsection \<open>Filters\<close>



lemma toLowerCase_Nil_iff [simp]: "toLowerCase q = [] \<longleftrightarrow> q = []"
  by (simp add: toLowerCase_def)

lemma toUpperCase_char_idem: "toUpperCase_char (toUpperCase_char c) = toUpperCase_char c"
proof -
  define n :: nat where "n = of_char c"
  show ?thesis
  proof (cases "97 \<le> n \<and> n \<le> 122")
    case True
    then have "n - 32 < 256" by arith
    then have "(n - 32) mod 256 = n - 32" by (rule mod_less)
    then have o: "of_char (char_of (n - 32)) = n - 32" by simp
    have u: "toUpperCase_char c = char_of (n - 32)"
      using True by (simp add: toUpperCase_char_def n_def)
    have "\<not> (97 \<le> n - 32 \<and> n - 32 \<le> 122)"
      using True by arith
    then have "toUpperCase_char (char_of (n - 32)) = char_of (n - 32)"
      unfolding toUpperCase_char_def Let_def o by auto
    with u show ?thesis by simp
  next
    case False
    then have "toUpperCase_char c = c"
      by (auto simp add: toUpperCase_char_def n_def)
    then show ?thesis by simp
  qed
qed

lemma toUpperCase_idem [simp]: "toUpperCase (toUpperCase s) = toUpperCase s"
  by (simp add: toUpperCase_def toUpperCase_char_idem)




lemma filter_example_of_the_specification:
  "shown ''mah'' ''QB'' (createPlayerElement ''4046'' mahomes) \<and>
   \<not> shown ''mah'' ''QB'' (createPlayerElement ''77'' mahomes_like)"
  by code_simp

subsection \<open>The materializer\<close>

lemma relative_index_le: "relative_index i len \<le> len"
  by (auto simp: relative_index_def)

lemma relative_index_nat [simp]: "k \<le> len \<Longrightarrow> relative_index (int k) len = k"
  by (simp add: relative_index_def)

lemma length_slice_from:
  "k \<le> length xs \<Longrightarrow> length (slice xs (int k) e) \<le> length xs - k"
  by (simp add: slice_def Let_def)

lemma slice_at_end [simp]: "slice xs (int (length xs)) e = []"
  using relative_index_le [of e "length xs"] by (simp add: slice_def Let_def)

lemma renderMorePlayers_sequence [simp]:
  "currentDisplayArray (renderMorePlayers n s) = currentDisplayArray s"
  by (simp add: renderMorePlayers_def Let_def split: option.splits)

lemma renderMorePlayers_count_mono: "displayedCount s \<le> displayedCount (renderMorePlayers n s)"
  by (simp add: renderMorePlayers_def Let_def split: option.splits)

lemma renderMorePlayers_count_bound:
  assumes "displayedCount s \<le> length (currentDisplayArray s)"
  shows "displayedCount (renderMorePlayers n s) \<le> length (currentDisplayArray s)"
proof (cases "getElementById ''tier-unranked'' (page_of s)")
  case None
  then show ?thesis
    using assms by (simp add: renderMorePlayers_def)
next
  case (Some u)
  have "length (slice (currentDisplayArray s) (int (displayedCount s)) (int (displayedCount s) + n))
      \<le> length (currentDisplayArray s) - displayedCount s"
    using assms by (rule length_slice_from)
  with assms Some show ?thesis
    by (simp add: renderMorePlayers_def Let_def)
qed

lemma renderMorePlayers_terminal:
  assumes "displayedCount s = length (currentDisplayArray s)"
  shows "renderMorePlayers n s = s"
  using assms by (simp add: renderMorePlayers_def Let_def split: option.splits)

lemma reveal_all_snoc: "reveal_all (ns @ [n]) s = renderMorePlayers n (reveal_all ns s)"
  by (simp add: reveal_all_def)

lemma reveal_all_invariant:
  assumes "displayedCount s \<le> length (currentDisplayArray s)"
  shows "currentDisplayArray (reveal_all ns s) = currentDisplayArray s \<and>
    displayedCount s \<le> displayedCount (reveal_all ns s) \<and>
    displayedCount (reveal_all ns s) \<le> length (currentDisplayArray s)"
proof (induction ns rule: rev_induct)
  case Nil
  show ?case using assms by (simp add: reveal_all_def)
next
  case (snoc n ns)
  then have "displayedCount (reveal_all ns s) \<le> length (currentDisplayArray (reveal_all ns s))"
    by simp
  from renderMorePlayers_count_bound [OF this, of n] renderMorePlayers_count_mono [of "reveal_all ns s" n] snoc
  show ?case
    by (simp add: reveal_all_snoc)
qed

lemma renderInitialPlayers_invariant:
  "currentDisplayArray (renderInitialPlayers s) = allPlayers s \<and>
   displayedCount (renderInitialPlayers s) \<le> length (currentDisplayArray (renderInitialPlayers s))"
proof -
  let ?s = "s\<lparr>currentDisplayArray := allPlayers s, displayedCount := 0\<rparr>"
  have "displayedCount ?s \<le> length (currentDisplayArray ?s)" by simp
  from renderMorePlayers_count_bound [OF this, of DISPLAY_CHUNK]
  show ?thesis
    by (simp add: renderInitialPlayers_def)
qed

text \<open>
  C7. Take a state in which \<open>displayedCount\<close> does not exceed the length of
  \<open>currentDisplayArray\<close>, as it is when the page loads and whenever \<open>renderInitialPlayers\<close> has set
  the sequence. Through any run of calls of \<open>renderMorePlayers\<close>, with any limits, and one more
  call after it: the sequence stays the same, \<open>displayedCount\<close> never decreases and never
  exceeds the length of the sequence, and once it equals that length a further call leaves the
  whole state, with the count and the page, unchanged.
\<close>

theorem displayedCount_monotone_and_bounded:
  assumes "displayedCount s \<le> length (currentDisplayArray s)"
  shows "currentDisplayArray (renderMorePlayers n (reveal_all ns s)) = currentDisplayArray s \<and>
    displayedCount s \<le> displayedCount (reveal_all ns s) \<and>
    displayedCount (reveal_all ns s) \<le> displayedCount (renderMorePlayers n (reveal_all ns s)) \<and>
    displayedCount (renderMorePlayers n (reveal_all ns s)) \<le> length (currentDisplayArray s) \<and>
    (displayedCount (reveal_all ns s) = length (currentDisplayArray s) \<longrightarrow>
       renderMorePlayers n (reveal_all ns s) = reveal_all ns s) \<and>
    displayedCount (fresh_page html item full) \<le> length (currentDisplayArray (fresh_page html item full)) \<and>
    displayedCount (renderInitialPlayers s0) \<le> length (currentDisplayArray (renderInitialPlayers s0))"
proof -
  note inv = reveal_all_invariant [OF assms, of ns]
  then have b: "displayedCount (reveal_all ns s) \<le> length (currentDisplayArray (reveal_all ns s))"
    by simp
  have t: "displayedCount (reveal_all ns s) = length (currentDisplayArray s) \<longrightarrow>
       renderMorePlayers n (reveal_all ns s) = reveal_all ns s"
    using inv renderMorePlayers_terminal [of "reveal_all ns s" n] by simp
  show ?thesis
    using inv renderMorePlayers_count_bound [OF b, of n] renderMorePlayers_count_mono [of "reveal_all ns s" n]
      t renderInitialPlayers_invariant [of s0]
    by (auto simp: fresh_page_def)
qed

theorem displayedCount_monotone_and_bounded_witness:
  "displayedCount (renderInitialPlayers (app_xyz\<lparr>allPlayers := [mahomes, mahomes_like]\<rparr>)) = 2 \<and>
   renderMorePlayers 50 (reveal_all [1, 50] (renderInitialPlayers (app_xyz\<lparr>allPlayers := [mahomes, mahomes_like]\<rparr>))) =
     reveal_all [1, 50] (renderInitialPlayers (app_xyz\<lparr>allPlayers := [mahomes, mahomes_like]\<rparr>))"
proof -
  let ?s = "renderInitialPlayers (app_xyz\<lparr>allPlayers := [mahomes, mahomes_like]\<rparr>)"
  have c: "currentDisplayArray ?s = [mahomes, mahomes_like]"
    using renderInitialPlayers_invariant [of "app_xyz\<lparr>allPlayers := [mahomes, mahomes_like]\<rparr>"] by simp
  have d: "displayedCount ?s = 2"
    by (simp add: renderInitialPlayers_def renderMorePlayers_def app_xyz_def fresh_page_def page_xyz_def
        getElementById_def find_list_def page_of_def tier1_def unranked_def slice_def relative_index_def
        DISPLAY_CHUNK_def Let_def)
  have h: "displayedCount ?s \<le> length (currentDisplayArray ?s)"
    using c d by simp
  have "displayedCount ?s \<le> displayedCount (reveal_all [1, 50] ?s)"
    "displayedCount (reveal_all [1, 50] ?s) \<le> displayedCount (renderMorePlayers 50 (reveal_all [1, 50] ?s))"
    "displayedCount (renderMorePlayers 50 (reveal_all [1, 50] ?s)) \<le> length (currentDisplayArray ?s)"
    using displayedCount_monotone_and_bounded [OF h, of 50 "[1, 50]"] by simp_all
  then have "displayedCount (reveal_all [1, 50] ?s) = length (currentDisplayArray ?s)"
    using c d by simp
  then have "renderMorePlayers 50 (reveal_all [1, 50] ?s) = reveal_all [1, 50] ?s"
    using displayedCount_monotone_and_bounded [OF h, of 50 "[1, 50]"] by simp
  with d show ?thesis by simp
qed

subsection \<open>The candidate pool\<close>

lemma mset_insert_by [simp]: "mset (insert_by cmp x ys) = add_mset x (mset ys)"
  by (induction ys) simp_all

lemma mset_sort_by [simp]: "mset (sort_by cmp xs) = mset xs"
  by (induction xs) (simp_all add: sort_by_def)

lemma set_insert_by [simp]: "set (insert_by cmp x ys) = insert x (set ys)"
  using mset_insert_by [of cmp x ys] by (metis set_mset_add_mset_insert set_mset_mset)

lemma sorted_insert_by:
  assumes total: "\<And>a b. cmp a b \<le> 0 \<or> cmp b a \<le> 0"
    and trans: "\<And>a b c. cmp a b \<le> 0 \<Longrightarrow> cmp b c \<le> 0 \<Longrightarrow> cmp a c \<le> 0"
    and "sorted_wrt (\<lambda>a b. cmp a b \<le> 0) ys"
  shows "sorted_wrt (\<lambda>a b. cmp a b \<le> 0) (insert_by cmp x ys)"
  using assms(3)
proof (induction ys)
  case Nil
  then show ?case by simp
next
  case (Cons y ys)
  show ?case
  proof (cases "cmp x y \<le> 0")
    case True
    then have "\<forall>z \<in> set ys. cmp x z \<le> 0"
      using Cons.prems trans by auto
    with True Cons.prems show ?thesis by simp
  next
    case False
    then have "cmp y x \<le> 0" using total by blast
    with False Cons show ?thesis by auto
  qed
qed

lemma sorted_sort_by:
  assumes "\<And>a b. cmp a b \<le> 0 \<or> cmp b a \<le> 0"
    and "\<And>a b c. cmp a b \<le> 0 \<Longrightarrow> cmp b c \<le> 0 \<Longrightarrow> cmp a c \<le> 0"
  shows "sorted_wrt (\<lambda>a b. cmp a b \<le> 0) (sort_by cmp xs)"
proof (induction xs)
  case Nil
  show ?case by (simp add: sort_by_def)
next
  case (Cons x xs)
  have "sort_by cmp (x # xs) = insert_by cmp x (sort_by cmp xs)"
    by (simp add: sort_by_def)
  with sorted_insert_by [of cmp "sort_by cmp xs" x, OF assms Cons] show ?case
    by simp
qed

lemma compare_players_le: "compare_players lc a b \<le> 0 \<longleftrightarrow> in_order lc a b"
  by (auto simp: compare_players_def in_order_def Let_def)

lemma allPlayers_loadRankings [simp]: "allPlayers (state_after (loadRankings s)) = allPlayers s"
  by (simp add: loadRankings_def state_after_def split: sum.splits prod.splits)

lemma allPlayers_load_then_rank [simp]: "allPlayers (state_after (load_then_rank s)) = allPlayers s"
  using allPlayers_loadRankings [of s]
  by (auto simp: load_then_rank_def state_after_def split: sum.splits prod.splits)

lemma allPlayers_populateUnranked:
  "allPlayers (state_after (populateUnranked lc obj s)) = build_allPlayers lc obj"
  by (simp add: populateUnranked_def Let_def state_after_def [of "Inl x" for x] split: option.splits)

text \<open>
  C10. Let \<open>localeCompare\<close> be a consistent comparison (any two strings are comparable, and
  the comparison is transitive). Then the pool that \<open>populateUnranked\<close> leaves in \<open>allPlayers\<close>
  holds exactly the fetched records, under their keys, whose position in upper case is QB, RB,
  WR or TE, each as often as it was fetched and no other; and the pool is in order of the last
  names without regard to case and, for equal last names, of the first names.
\<close>

theorem allPlayers_filtered_and_sorted:
  assumes "\<And>x y. localeCompare x y \<le> 0 \<or> localeCompare y x \<le> 0"
    and "\<And>x y z. localeCompare x y \<le> 0 \<Longrightarrow> localeCompare y z \<le> 0 \<Longrightarrow> localeCompare x z \<le> 0"
  shows "allPlayers (state_after (populateUnranked localeCompare playersObj s)) =
      build_allPlayers localeCompare playersObj \<and>
    mset (build_allPlayers localeCompare playersObj) =
      mset (filter (\<lambda>p. toUpperCase (or_empty (position p)) \<in> {''QB'', ''RB'', ''WR'', ''TE''})
             (map with_id playersObj)) \<and>
    sorted_wrt (in_order localeCompare) (build_allPlayers localeCompare playersObj)"
proof -
  have total: "compare_players localeCompare a b \<le> 0 \<or> compare_players localeCompare b a \<le> 0" for a b
    using assms(1) [of "firstKey a" "firstKey b"] by (auto simp: compare_players_le in_order_def)
  have trans: "compare_players localeCompare a c \<le> 0"
    if "compare_players localeCompare a b \<le> 0" "compare_players localeCompare b c \<le> 0" for a b c
    using that assms(2) [of "firstKey a" "firstKey b" "firstKey c"]
    by (auto simp: compare_players_le in_order_def)
  have "sorted_wrt (\<lambda>a b. compare_players localeCompare a b \<le> 0) (build_allPlayers localeCompare playersObj)"
    unfolding build_allPlayers_def using total trans by (rule sorted_sort_by)
  then have "sorted_wrt (in_order localeCompare) (build_allPlayers localeCompare playersObj)"
    by (simp add: compare_players_le)
  moreover have "wanted_position = (\<lambda>p. toUpperCase (or_empty (position p)) \<in> {''QB'', ''RB'', ''WR'', ''TE''})"
    by (auto simp: wanted_position_def fun_eq_iff)
  ultimately show ?thesis
    by (simp add: allPlayers_populateUnranked build_allPlayers_def)
qed

theorem allPlayers_filtered_and_sorted_witness:
  "map p_id (build_allPlayers compare_codes fetched_example) = [''4'', ''3'', ''1''] \<and>
   sorted_wrt (in_order compare_codes) (build_allPlayers compare_codes fetched_example)"
proof -
  have t: "compare_codes x y \<le> 0 \<or> compare_codes y x \<le> 0" for x y
    by (auto simp: compare_codes_def)
  have tr: "compare_codes x y \<le> 0 \<Longrightarrow> compare_codes y z \<le> 0 \<Longrightarrow> compare_codes x z \<le> 0" for x y z
    by (auto simp: compare_codes_def split: if_splits)
  have "map p_id (build_allPlayers compare_codes fetched_example) = [''4'', ''3'', ''1'']"
    by code_simp
  then show ?thesis
    using allPlayers_filtered_and_sorted [of compare_codes fetched_example, OF t tr] by simp
qed

subsection \<open>Reading the storage item\<close>

lemma loadRankings_absent:
  "rankings s = Absent \<or> rankings s = Empty_text \<Longrightarrow> loadRankings s = Inr s"
  by (auto simp: loadRankings_def parse_rankings_def falsy_def Object_entries_def)

text \<open>
  C2. \<open>loadRankings\<close> has no handler around \<open>JSON.parse\<close>. With a stored text that does not
  parse, the call throws a \<open>SyntaxError\<close> instead of going on with an empty registry, and the
  page load that called it ends with that exception. A stored object whose entry is not an
  array makes the call throw a \<open>TypeError\<close>. With no stored item the call returns and changes
  nothing.
\<close>

theorem loadRankings_unparseable_throws:
  "loadRankings (app_xyz\<lparr>rankings := Unparseable\<rparr>) = Inl (SyntaxError, app_xyz\<lparr>rankings := Unparseable\<rparr>) \<and>
   map_sum fst allPlayers (page_load compare_codes page_xyz Unparseable False fetched_example) = Inl SyntaxError \<and>
   loadRankings (app_xyz\<lparr>rankings := Parses (JObject [(''tier-1'', JNumber 5)])\<rparr>) =
     Inl (TypeError, app_xyz\<lparr>rankings := Parses (JObject [(''tier-1'', JNumber 5)])\<rparr>) \<and>
   loadRankings (app_xyz\<lparr>rankings := Absent\<rparr>) = Inr (app_xyz\<lparr>rankings := Absent\<rparr>)"
proof -
  have a: "loadRankings (app_xyz\<lparr>rankings := Unparseable\<rparr>) = Inl (SyntaxError, app_xyz\<lparr>rankings := Unparseable\<rparr>)"
    by (simp add: loadRankings_def parse_rankings_def)
  have b: "map_sum fst allPlayers (page_load compare_codes page_xyz Unparseable False fetched_example) = Inl SyntaxError"
    by (simp add: page_load_def populateUnranked_def fresh_page_def load_then_rank_def loadRankings_def
        parse_rankings_def Let_def getElementById_def find_list_def page_of_def page_xyz_def tier1_def
        unranked_def)
  have c: "loadRankings (app_xyz\<lparr>rankings := Parses (JObject [(''tier-1'', JNumber 5)])\<rparr>) =
     Inl (TypeError, app_xyz\<lparr>rankings := Parses (JObject [(''tier-1'', JNumber 5)])\<rparr>)"
    by (simp add: loadRankings_def parse_rankings_def falsy_def Object_entries_def getElementById_def
        find_list_def page_of_def put_page_def app_xyz_def fresh_page_def page_xyz_def tier1_def
        unranked_def)
  have d: "loadRankings (app_xyz\<lparr>rankings := Absent\<rparr>) = Inr (app_xyz\<lparr>rankings := Absent\<rparr>)"
    by (rule loadRankings_absent) simp
  from a b c d show ?thesis by simp
qed

subsection \<open>Moving elements keeps the players of the page\<close>

lemma all_players_Cons [simp]: "all_players (t # d) = players t @ all_players d"
  by (simp add: all_players_def)

lemma all_players_Nil [simp]: "all_players [] = []"
  by (simp add: all_players_def)

lemma all_players_append [simp]: "all_players (d @ e) = all_players d @ all_players e"
  by (simp add: all_players_def)

lemma all_ids_Cons [simp]: "all_ids (t # d) = tier_ids t @ all_ids d"
  by (simp add: all_ids_def tier_ids_def)

lemma all_ids_Nil [simp]: "all_ids [] = []"
  by (simp add: all_ids_def)

lemma mset_all_ids: "mset (all_ids d) = image_mset data_id (mset (all_players d))"
  by (simp add: all_ids_def)

lemma map_first_none: "find P d = None \<Longrightarrow> map_first P f d = d"
  by (induction d) (auto split: if_splits)

lemma map_first_split:
  "find P d = Some t \<Longrightarrow>
     \<exists>pre post. d = pre @ t # post \<and> (\<forall>x \<in> set pre. \<not> P x) \<and> P t \<and> map_first P f d = pre @ f t # post"
proof (induction d)
  case Nil
  then show ?case by simp
next
  case (Cons x d)
  show ?case
  proof (cases "P x")
    case True
    with Cons.prems have "x = t" by simp
    with True have "x # d = [] @ t # d \<and> (\<forall>x \<in> set []. \<not> P x) \<and> P t \<and> map_first P f (x # d) = [] @ f t # d"
      by simp
    then show ?thesis by blast
  next
    case False
    with Cons obtain pre post where
      "d = pre @ t # post" "\<forall>x \<in> set pre. \<not> P x" "P t" "map_first P f d = pre @ f t # post"
      by auto
    with False have "x # d = (x # pre) @ t # post \<and> (\<forall>y \<in> set (x # pre). \<not> P y) \<and> P t \<and>
        map_first P f (x # d) = (x # pre) @ f t # post"
      by simp
    then show ?thesis by blast
  qed
qed

lemma mset_all_players_map_first:
  assumes "find P d = Some t"
  shows "mset (all_players (map_first P f d)) + mset (players t) =
    mset (all_players d) + mset (players (f t))"
proof -
  from map_first_split [OF assms, of f] obtain pre post where
    "d = pre @ t # post" "map_first P f d = pre @ f t # post"
    by blast
  then show ?thesis by simp
qed

lemma list_ids_map_first:
  "(\<And>t. list_id (f t) = list_id t) \<Longrightarrow> map list_id (map_first P f d) = map list_id d"
  by (induction d) auto

lemma data_tiers_map_first:
  "(\<And>t. data_tier (f t) = data_tier t) \<Longrightarrow> map data_tier (map_first P f d) = map data_tier d"
  by (induction d) auto

lemma find_list_iff: "find_list k d \<noteq> None \<longleftrightarrow> k \<in> set (map list_id d)"
  by (auto simp: find_list_def find_None_iff)

lemma query_player_None_iff: "query_player i d = None \<longleftrightarrow> i \<notin> set (all_ids d)"
  by (auto simp: query_player_def find_None_iff all_ids_def)

lemma query_player_Some: "query_player i d = Some el \<Longrightarrow> el \<in> set (all_players d) \<and> data_id el = i"
  by (auto simp: query_player_def find_Some_iff)

lemma mset_all_players_detach:
  "mset (all_players (detach el d)) = mset (all_players d) - {#el#}"
proof (cases "find (\<lambda>t. el \<in> set (players t)) d")
  case None
  then have "el \<notin> set (all_players d)"
    by (auto simp: find_None_iff all_players_def)
  with None show ?thesis
    by (simp add: detach_def map_first_none)
next
  case (Some t)
  from map_first_split [OF Some, of "\<lambda>t. t\<lparr>players := remove1 el (players t)\<rparr>"] obtain pre post where
    d: "d = pre @ t # post" and el: "el \<in> set (players t)"
    and m: "detach el d = pre @ t\<lparr>players := remove1 el (players t)\<rparr> # post"
    unfolding detach_def by blast
  have a: "mset (all_players (detach el d)) =
      mset (all_players pre) + (mset (players t) - {#el#}) + mset (all_players post)"
    unfolding m by simp
  have b: "mset (all_players d) = mset (all_players pre) + mset (players t) + mset (all_players post)"
    unfolding d by simp
  from el have "el \<in># mset (players t)"
    by simp
  then show ?thesis
    unfolding a b by (simp add: insert_DiffM)
qed

lemma detach_absent: "el \<notin> set (all_players d) \<Longrightarrow> detach el d = d"
proof -
  assume "el \<notin> set (all_players d)"
  then have "find (\<lambda>t. el \<in> set (players t)) d = None"
    by (auto simp: find_None_iff all_players_def)
  then show ?thesis
    unfolding detach_def by (rule map_first_none)
qed

lemma list_ids_detach [simp]: "map list_id (detach el d) = map list_id d"
  by (simp add: detach_def list_ids_map_first)

lemma data_tiers_detach [simp]: "map data_tier (detach el d) = map data_tier d"
  by (simp add: detach_def data_tiers_map_first)

text \<open>Putting an element into the list with a given id, at any place of that list.\<close>

lemma mset_all_players_put:
  assumes "k \<in> set (map list_id d)" and "\<And>t. mset (players (f t)) = add_mset el (mset (players t))"
  shows "mset (all_players (map_first (\<lambda>t. list_id t = k) f d)) = add_mset el (mset (all_players d))"
proof -
  from assms(1) have "find (\<lambda>t. list_id t = k) d \<noteq> None"
    by (auto simp: find_None_iff)
  then obtain t where "find (\<lambda>t. list_id t = k) d = Some t" by auto
  from mset_all_players_map_first [OF this, of f] assms(2) [of t] show ?thesis
    by simp
qed


lemma mset_all_players_append_to_list:
  assumes "k \<in> set (map list_id d)"
  shows "mset (all_players (append_to_list k el d)) =
    (if el \<in> set (all_players d) then mset (all_players d) else add_mset el (mset (all_players d)))"
proof -
  have "k \<in> set (map list_id (detach el d))"
    using assms by simp
  from mset_all_players_put [OF this, of "\<lambda>t. t\<lparr>players := players t @ [el]\<rparr>" el]
  show ?thesis
    by (simp add: append_to_list_def mset_all_players_detach)
qed

lemma list_ids_append_to_list [simp]: "map list_id (append_to_list k el d) = map list_id d"
  by (simp add: append_to_list_def list_ids_map_first)

lemma data_tiers_append_to_list [simp]: "map data_tier (append_to_list k el d) = map data_tier d"
  by (simp add: append_to_list_def data_tiers_map_first)

subsection \<open>Every operation keeps the ids of the page distinct\<close>

lemma all_ids_concat: "all_ids d = concat (map tier_ids d)"
  by (induction d) simp_all

lemma all_ids_updateRanks [simp]: "all_ids (updateRanks d) = all_ids d"
  by (simp only: all_ids_concat tier_ids_updateRanks)

lemma list_ids_updateRanks [simp]: "map list_id (updateRanks d) = map list_id d"
  by (simp add: updateRanks_def)

lemma all_players_createTier [simp]: "all_players (createTier n d) = all_players d"
proof -
  have "all_players (takeWhile P d @ dropWhile P d) = all_players d" for P
    by simp
  then show ?thesis
    by (simp add: createTier_def Let_def del: takeWhile_dropWhile_id)
qed

lemma createPlayerElement_id [simp]: "data_id (createPlayerElement i p) = i"
  by (simp add: createPlayerElement_def)

lemma render_player_ids:
  assumes "''tier-unranked'' \<in> set (map list_id d)"
  shows "mset (all_ids (render_player_lists p d)) =
    (if p_id p \<in> set (all_ids d) then mset (all_ids d) else add_mset (p_id p) (mset (all_ids d)))"
proof (cases "p_id p \<in> set (all_ids d)")
  case True
  then show ?thesis
    by (simp add: render_player_lists_def query_player_None_iff)
next
  case False
  have "data_id (createPlayerElement (p_id p) p) = p_id p"
    by simp
  with False have "createPlayerElement (p_id p) p \<notin> set (all_players d)"
    unfolding all_ids_def by (metis image_eqI image_set)
  with False show ?thesis
    using mset_all_players_append_to_list [OF assms, of "createPlayerElement (p_id p) p"]
    by (simp add: render_player_lists_def query_player_None_iff mset_all_ids)
qed

lemma list_ids_render_player [simp]: "map list_id (render_player_lists p d) = map list_id d"
  by (simp add: render_player_lists_def)

lemma render_players_ids:
  assumes "''tier-unranked'' \<in> set (map list_id d)" and "distinct (all_ids d)"
  shows "distinct (all_ids (foldl (\<lambda>d p. render_player_lists p d) d ps)) \<and>
    set (all_ids (foldl (\<lambda>d p. render_player_lists p d) d ps)) = set (all_ids d) \<union> p_id ` set ps \<and>
    map list_id (foldl (\<lambda>d p. render_player_lists p d) d ps) = map list_id d"
  using assms
proof (induction ps arbitrary: d)
  case Nil
  then show ?case by simp
next
  case (Cons p ps)
  have m: "mset (all_ids (render_player_lists p d)) =
    (if p_id p \<in> set (all_ids d) then mset (all_ids d) else add_mset (p_id p) (mset (all_ids d)))"
    using Cons.prems(1) by (rule render_player_ids)
  have dist: "distinct (all_ids (render_player_lists p d))"
  proof (cases "p_id p \<in> set (all_ids d)")
    case True
    with m have "mset (all_ids (render_player_lists p d)) = mset (all_ids d)" by simp
    then show ?thesis using Cons.prems(2) by (metis mset_eq_imp_distinct_iff)
  next
    case False
    with m have "mset (all_ids (render_player_lists p d)) = mset (p_id p # all_ids d)" by simp
    moreover have "distinct (p_id p # all_ids d)" using False Cons.prems(2) by simp
    ultimately show ?thesis by (metis mset_eq_imp_distinct_iff)
  qed
  have st: "set (all_ids (render_player_lists p d)) = insert (p_id p) (set (all_ids d))"
  proof -
    have "set_mset (mset (all_ids (render_player_lists p d))) = insert (p_id p) (set (all_ids d))"
      unfolding m by auto
    then show ?thesis by simp
  qed
  have l: "''tier-unranked'' \<in> set (map list_id (render_player_lists p d))"
    using Cons.prems(1) by simp
  from Cons.IH [OF l dist] st show ?case
    by auto
qed

lemma restore_player_players:
  assumes "k \<in> set (map list_id d)"
  shows "mset (all_players (restore_player_lists k i d)) = mset (all_players d) \<and>
    map list_id (restore_player_lists k i d) = map list_id d"
proof (cases "query_player (toString i) d")
  case None
  then show ?thesis by (simp add: restore_player_lists_def)
next
  case (Some el)
  then have "el \<in> set (all_players d)"
    by (simp add: query_player_Some)
  with Some show ?thesis
    using mset_all_players_append_to_list [OF assms, of el] by (simp add: restore_player_lists_def)
qed

lemma restore_players_players:
  assumes "k \<in> set (map list_id d)"
  shows "mset (all_players (foldl (\<lambda>d' i. restore_player_lists k i d') d ids)) = mset (all_players d) \<and>
    map list_id (foldl (\<lambda>d' i. restore_player_lists k i d') d ids) = map list_id d"
  using assms
proof (induction ids arbitrary: d)
  case Nil
  then show ?case by simp
next
  case (Cons i ids)
  from restore_player_players [OF Cons.prems, of i]
  have a: "mset (all_players (restore_player_lists k i d)) = mset (all_players d)"
    and b: "map list_id (restore_player_lists k i d) = map list_id d"
    by simp_all
  from Cons.prems b have "k \<in> set (map list_id (restore_player_lists k i d))"
    by simp
  from Cons.IH [OF this] a b show ?case
    by simp
qed

lemma load_entries_players:
  "mset (all_players (case load_entries_lists es d of Inl (e, d') \<Rightarrow> d' | Inr d' \<Rightarrow> d')) = mset (all_players d)"
proof (induction es d rule: load_entries_lists.induct)
  case (1 d)
  then show ?case by simp
next
  case (2 tierId playerIds rest d)
  show ?case
  proof (cases "find_list tierId d")
    case None
    with 2 show ?thesis by simp
  next
    case (Some l)
    then have k: "tierId \<in> set (map list_id d)"
      using find_list_iff [of tierId d] by simp
    show ?thesis
    proof (cases playerIds)
      case (JArray ids)
      with 2(2) [OF Some JArray] Some restore_players_players [OF k, of ids] show ?thesis
        by simp
    qed (use Some in simp_all)
  qed
qed

subsection \<open>A page with no player outside the lists\<close>

text \<open>
  While no player is outside the lists, and the elements looked up by id are lists, the
  functions of the page act on the lists alone.
\<close>

lemma strays_empty_iff: "strays o' = [] \<longleftrightarrow> (\<forall>e \<in> set o'. snd e = [])"
  by (auto simp: strays_def)

lemma querySelector_lists:
  "strays o' = [] \<Longrightarrow> querySelector i (d, o') = query_player i d"
  by (simp add: querySelector_def query_player_def)

lemma detach_page_lists:
  assumes "strays o' = []"
  shows "detach_page el (d, o') = (detach el d, o')"
proof (cases "el \<in> set (all_players d)")
  case True
  then show ?thesis by (simp add: detach_page_def)
next
  case False
  have "find (\<lambda>e. el \<in> set (snd e)) o' = None"
    using assms by (auto simp: find_None_iff strays_empty_iff)
  then have "map_first (\<lambda>e. el \<in> set (snd e)) (\<lambda>e. (fst e, remove1 el (snd e))) o' = o'"
    by (rule map_first_none)
  with False show ?thesis
    by (simp add: detach_page_def detach_absent)
qed

lemma appendChild_lists:
  assumes "strays o' = []" and "k \<in> set (map list_id d)"
  shows "appendChild k el (d, o') = (append_to_list k el d, o')"
proof -
  have "k \<in> set (map list_id (detach el d))"
    using assms(2) by simp
  then have "find_list k (detach el d) \<noteq> None"
    by (simp only: find_list_iff)
  then show ?thesis
    by (simp add: appendChild_def detach_page_lists [OF assms(1)] append_to_list_def)
qed

lemma restore_player_lists_eq:
  assumes "strays o' = []" and "k \<in> set (map list_id d)"
  shows "restore_player k i (d, o') = (restore_player_lists k i d, o')"
  by (simp add: restore_player_def restore_player_lists_def querySelector_lists [OF assms(1)]
      appendChild_lists [OF assms] split: option.splits)

lemma restore_players_lists_eq:
  assumes "strays o' = []" and "k \<in> set (map list_id d)"
  shows "foldl (\<lambda>pg i. restore_player k i pg) (d, o') ids =
    (foldl (\<lambda>d' i. restore_player_lists k i d') d ids, o')"
  using assms(2)
proof (induction ids arbitrary: d)
  case Nil
  then show ?case by simp
next
  case (Cons i ids)
  have "k \<in> set (map list_id (restore_player_lists k i d))"
    using restore_player_players [OF Cons.prems, of i] Cons.prems by simp
  from Cons.IH [OF this] show ?case
    by (simp add: restore_player_lists_eq [OF assms(1) Cons.prems])
qed

lemma getElementById_lists:
  "k \<notin> set (map fst o') \<Longrightarrow> getElementById k (d, o') = map_option Inl (find_list k d)"
proof -
  assume "k \<notin> set (map fst o')"
  then have "find (\<lambda>e. fst e = k) o' = None"
    by (force simp: find_None_iff)
  then show ?thesis
    by (simp add: getElementById_def split: option.splits)
qed

lemma load_entries_lists_eq:
  assumes "strays o' = []" and "\<forall>e \<in> set es. fst e \<notin> set (map fst o')"
  shows "load_entries es (d, o') =
    (case load_entries_lists es d of Inl (e, d') \<Rightarrow> Inl (e, (d', o')) | Inr d' \<Rightarrow> Inr (d', o'))"
  using assms(2)
proof (induction es d rule: load_entries_lists.induct)
  case (1 d)
  then show ?case by simp
next
  case (2 tierId playerIds rest d)
  then have key: "tierId \<notin> set (map fst o')" and rest: "\<forall>e \<in> set rest. fst e \<notin> set (map fst o')"
    by simp_all
  show ?case
  proof (cases "find_list tierId d")
    case None
    with 2(1) [OF None rest] show ?thesis
      by (simp add: getElementById_lists [OF key])
  next
    case (Some l)
    then have k: "tierId \<in> set (map list_id d)"
      using find_list_iff [of tierId d] by simp
    show ?thesis
    proof (cases playerIds)
      case (JArray ids)
      with 2(2) [OF Some JArray rest] Some show ?thesis
        by (simp add: getElementById_lists [OF key] restore_players_lists_eq [OF assms(1) k])
    qed (use Some in \<open>simp_all add: getElementById_lists [OF key]\<close>)
  qed
qed

lemma render_player_lists_eq:
  assumes "strays o' = []" and "''tier-unranked'' \<in> set (map list_id d)"
  shows "render_player p (d, o') = (render_player_lists p d, o')"
  by (simp add: render_player_def render_player_lists_def querySelector_lists [OF assms(1)]
      appendChild_lists [OF assms])

lemma render_players_lists_eq:
  assumes "strays o' = []" and "''tier-unranked'' \<in> set (map list_id d)"
  shows "foldl (\<lambda>pg p. render_player p pg) (d, o') ps =
    (foldl (\<lambda>d' p. render_player_lists p d') d ps, o')"
  using assms(2)
proof (induction ps arbitrary: d)
  case Nil
  then show ?case by simp
next
  case (Cons p ps)
  have "''tier-unranked'' \<in> set (map list_id (render_player_lists p d))"
    using Cons.prems by simp
  from Cons.IH [OF this] show ?case
    by (simp add: render_player_lists_eq [OF assms(1) Cons.prems])
qed


lemma find_Some_in_set: "find P xs = Some x \<Longrightarrow> x \<in> set xs \<and> P x"
  by (auto simp: find_Some_iff)




lemma tier_ids_map_first:
  "(\<And>t. tier_ids (f t) = tier_ids t) \<Longrightarrow> map tier_ids (map_first P f d) = map tier_ids d"
  by (induction d) auto

lemma data_ids_map_first:
  "(\<And>p. data_id (g p) = data_id p) \<Longrightarrow> map data_id (map_first Q g ps) = map data_id ps"
  by (induction ps) auto

lemma all_ids_set_rank_value [simp]: "all_ids (set_rank_value i v d) = all_ids d"
proof -
  have "map tier_ids (set_rank_value i v d) = map tier_ids d"
    unfolding set_rank_value_def by (rule tier_ids_map_first) (simp add: tier_ids_def data_ids_map_first)
  then show ?thesis
    by (simp only: all_ids_concat)
qed

lemma all_ids_applyFilters [simp]: "all_ids (document (applyFilters s)) = all_ids (document s)"
proof -
  have "map tier_ids (document (applyFilters s)) = map tier_ids (document s)"
    by (simp add: applyFilters_def tier_ids_def comp_def)
  then show ?thesis
    by (simp only: all_ids_concat)
qed

lemma load_entries_list_ids:
  "map list_id (case load_entries_lists es d of Inl (e, d') \<Rightarrow> d' | Inr d' \<Rightarrow> d') = map list_id d"
proof (induction es d rule: load_entries_lists.induct)
  case (1 d)
  then show ?case by simp
next
  case (2 tierId playerIds rest d)
  show ?case
  proof (cases "find_list tierId d")
    case None
    with 2 show ?thesis by simp
  next
    case (Some l)
    then have k: "tierId \<in> set (map list_id d)"
      using find_list_iff [of tierId d] by simp
    show ?thesis
    proof (cases playerIds)
      case (JArray ids)
      with 2(2) [OF Some JArray] Some restore_players_players [OF k, of ids] show ?thesis
        by simp
    qed (use Some in simp_all)
  qed
qed

lemma names_none_of_keys:
  assumes "names_none_of elements item" and "parse_rankings item = Inr saved"
  shows "\<forall>e \<in> set (Object_entries saved). fst e \<notin> set (map fst elements)"
  using assms by (simp add: names_none_of_def list_all_iff)

lemma loadRankings_on_lists:
  assumes "strays (elsewhere s) = []" and "names_none_of (elsewhere s) (rankings s)"
  shows "loadRankings s =
    (case parse_rankings (rankings s) of
       Inl e \<Rightarrow> Inl (e, s)
     | Inr saved \<Rightarrow>
         if falsy saved then Inr s
         else (case load_entries_lists (Object_entries saved) (document s) of
                 Inl (e, d) \<Rightarrow> Inl (e, s\<lparr>document := d\<rparr>)
               | Inr d \<Rightarrow> Inr (s\<lparr>document := d\<rparr>)))"
proof (cases "parse_rankings (rankings s)")
  case (Inl e)
  then show ?thesis by (simp add: loadRankings_def)
next
  case (Inr saved)
  have p: "page_of s = (document s, elsewhere s)"
    by (simp add: page_of_def)
  have u: "put_page (d, elsewhere s) s = s\<lparr>document := d\<rparr>" for d
    by (simp add: put_page_def)
  from names_none_of_keys [OF assms(2) Inr] Inr show ?thesis
    by (simp add: loadRankings_def p u load_entries_lists_eq [OF assms(1)] split: sum.splits prod.splits)
qed

lemma loadRankings_players:
  assumes "strays (elsewhere s) = []" and "names_none_of (elsewhere s) (rankings s)"
  shows "mset (all_players (document (state_after (loadRankings s)))) = mset (all_players (document s)) \<and>
    map list_id (document (state_after (loadRankings s))) = map list_id (document s) \<and>
    elsewhere (state_after (loadRankings s)) = elsewhere s"
proof (cases "parse_rankings (rankings s)")
  case (Inl e)
  then show ?thesis by (simp add: loadRankings_on_lists [OF assms] state_after_def)
next
  case (Inr saved)
  show ?thesis
  proof (cases "falsy saved")
    case True
    with Inr show ?thesis by (simp add: loadRankings_on_lists [OF assms] state_after_def)
  next
    case False
    with Inr load_entries_players [of "Object_entries saved" "document s"]
      load_entries_list_ids [of "Object_entries saved" "document s"] show ?thesis
      by (auto simp: loadRankings_on_lists [OF assms] state_after_def split: sum.splits prod.splits)
  qed
qed



lemma allPlayers_renderMorePlayers [simp]: "allPlayers (renderMorePlayers n s) = allPlayers s"
  by (simp add: renderMorePlayers_def Let_def split: option.splits)

lemma allPlayers_handleRankInputChange [simp]: "allPlayers (handleRankInputChange i v s) = allPlayers s"
  by (simp add: handleRankInputChange_def Let_def delayedSave_def split: option.splits)

lemma allPlayers_handle [simp]: "allPlayers (handle e s) = allPlayers s"
  by (cases e)
    (simp_all add: addTier_click_def delayedSave_def saveRankings_def sortable_onEnd_def
      filter_input_def posBtn_click_def applyFilters_def)

lemma elsewhere_handleRankInputChange [simp]: "elsewhere (handleRankInputChange i v s) = elsewhere s"
  by (simp add: handleRankInputChange_def Let_def delayedSave_def split: option.splits)

lemma list_ids_handleRankInputChange [simp]:
  "map list_id (document (handleRankInputChange i v s)) = map list_id (document s)"
  by (simp add: handleRankInputChange_def Let_def delayedSave_def list_ids_map_first split: option.splits)

lemma mset_ids_distinct_set:
  assumes "mset (all_ids d') = mset (all_ids d)"
  shows "distinct (all_ids d') = distinct (all_ids d) \<and> set (all_ids d') = set (all_ids d)"
  using assms by (metis mset_eq_imp_distinct_iff mset_eq_setD)

lemma all_ids_createTier [simp]: "all_ids (createTier n d) = all_ids d"
  by (simp add: all_ids_def)



lemma list_ids_applyFilters [simp]: "map list_id (document (applyFilters s)) = map list_id (document s)"
  by (simp add: applyFilters_def comp_def)


lemma list_ids_sortable_drop [simp]: "map list_id (sortable_drop i k n d) = map list_id d"
  by (simp add: sortable_drop_def list_ids_map_first split: option.splits)

lemma list_ids_set_rank_value [simp]: "map list_id (set_rank_value i v d) = map list_id d"
  by (simp add: set_rank_value_def list_ids_map_first)

lemma document_saveRankings [simp]: "document (saveRankings s) = document s"
  by (simp add: saveRankings_def)

lemma elsewhere_saveRankings [simp]: "elsewhere (saveRankings s) = elsewhere s"
  by (simp add: saveRankings_def)





lemma populateUnranked_on_lists:
  assumes "strays (elsewhere s) = []" and "''tier-unranked'' \<in> set (map list_id (document s))"
  shows "populateUnranked lc obj s =
    load_then_rank (s\<lparr>allPlayers := build_allPlayers lc obj,
      document := foldl (\<lambda>d p. render_player_lists p d) (document s) (build_allPlayers lc obj)\<rparr>)"
proof -
  from assms(2) obtain u where u: "find_list ''tier-unranked'' (document s) = Some u"
    using find_list_iff [of "''tier-unranked''" "document s"] by auto
  have g: "getElementById ''tier-unranked'' (document s, elsewhere s) = Some (Inl u)"
    using u by (simp add: getElementById_def)
  show ?thesis
    by (simp add: populateUnranked_def page_of_def g Let_def render_players_lists_eq [OF assms] put_page_def)
qed



lemma strays_page_elements [simp]: "strays (page_elements @ others) = strays others"
  by (simp add: strays_def page_elements_def)




lemma page_load_with_Nil: "page_load_with [] lc html item full obj = page_load lc html item full obj"
  by (simp add: page_load_with_def page_load_def fresh_page_def)



lemma foreign_session_reachable: "reachable (\<lambda>item. True) [] html_example foreign_session"
  unfolding foreign_session_def page_load_with_Nil [symmetric] by (intro reachable.loaded) simp

lemma returned_session_reachable: "reachable (\<lambda>item. True) [] html_example returned_session"
  unfolding returned_session_def page_load_with_Nil [symmetric]
  by (intro reachable.handled reachable.loaded) simp


subsection \<open>Restoring, seen on the orders\<close>

lemma filter_other_id:
  assumes "i \<notin> set xs"
  shows "filter (\<lambda>j. j \<noteq> i) xs = xs"
proof (rule filter_True)
  show "\<forall>x \<in> set xs. x \<noteq> i" using assms by blast
qed

lemma ids_remove1:
  "distinct (map data_id ps) \<Longrightarrow> el \<in> set ps \<Longrightarrow>
     map data_id (remove1 el ps) = filter (\<lambda>j. j \<noteq> data_id el) (map data_id ps)"
proof (induction ps)
  case Nil
  then show ?case by simp
next
  case (Cons p ps)
  show ?case
  proof (cases "el = p")
    case True
    with Cons.prems have "data_id el \<notin> set (map data_id ps)" by simp
    then have "filter (\<lambda>j. j \<noteq> data_id el) (map data_id ps) = map data_id ps"
      by (rule filter_other_id)
    with True show ?thesis by simp
  next
    case False
    with Cons.prems have "el \<in> set ps" by simp
    with Cons.prems have "data_id p \<noteq> data_id el" by auto
    with False Cons \<open>el \<in> set ps\<close> show ?thesis by simp
  qed
qed

lemma filter_absent_tiers:
  "i \<notin> set (all_ids d) \<Longrightarrow> map (\<lambda>t. filter (\<lambda>j. j \<noteq> i) (tier_ids t)) d = map tier_ids d"
  by (induction d) (simp_all add: filter_other_id)

lemma tier_ids_detach:
  assumes "distinct (all_ids d)" and "el \<in> set (all_players d)"
  shows "map tier_ids (detach el d) = map (\<lambda>t. filter (\<lambda>j. j \<noteq> data_id el) (tier_ids t)) d"
  using assms
proof (induction d)
  case Nil
  then show ?case by simp
next
  case (Cons t d)
  show ?case
  proof (cases "el \<in> set (players t)")
    case True
    then have "data_id el \<in> set (tier_ids t)"
      by (simp add: tier_ids_def)
    with Cons.prems(1) have "data_id el \<notin> set (all_ids d)" by auto
    then have rest: "map (\<lambda>t. filter (\<lambda>j. j \<noteq> data_id el) (tier_ids t)) d = map tier_ids d"
      by (rule filter_absent_tiers)
    have "distinct (map data_id (players t))"
      using Cons.prems(1) by (simp add: tier_ids_def)
    from ids_remove1 [OF this True] rest True show ?thesis
      by (simp add: detach_def tier_ids_def)
  next
    case False
    with Cons.prems(2) have el: "el \<in> set (all_players d)" by simp
    then have "data_id el \<in> set (all_ids d)"
      by (simp add: all_ids_def)
    with Cons.prems(1) have "data_id el \<notin> set (tier_ids t)" by auto
    then have "filter (\<lambda>j. j \<noteq> data_id el) (tier_ids t) = tier_ids t"
      by (rule filter_other_id)
    moreover have "map tier_ids (detach el d) = map (\<lambda>t. filter (\<lambda>j. j \<noteq> data_id el) (tier_ids t)) d"
      using Cons.IH el Cons.prems(1) by simp
    ultimately show ?thesis
      using False by (simp add: detach_def)
  qed
qed

lemma map_first_by_key:
  "distinct (map list_id d) \<Longrightarrow>
     map_first (\<lambda>t. list_id t = k) f d = map (\<lambda>t. if list_id t = k then f t else t) d"
proof (induction d)
  case Nil
  then show ?case by simp
next
  case (Cons t d)
  show ?case
  proof (cases "list_id t = k")
    case True
    with Cons.prems have "k \<notin> list_id ` set d" by simp
    then have "\<forall>x \<in> set d. list_id x \<noteq> k" by (metis image_eqI)
    then have "map (\<lambda>t. if list_id t = k then f t else t) d = d"
      by (simp add: map_idI)
    with True show ?thesis by simp
  next
    case False
    with Cons show ?thesis by simp
  qed
qed

lemma layout_zip: "layout d = zip (map list_id d) (map tier_ids d)"
  by (simp add: layout_def zip_map_map zip_same_conv_map)

lemma layout_detach:
  assumes "distinct (all_ids d)" and "el \<in> set (all_players d)"
  shows "layout (detach el d) = map (\<lambda>(k', xs). (k', filter (\<lambda>j. j \<noteq> data_id el) xs)) (layout d)"
proof -
  have "layout (detach el d) = zip (map list_id d) (map (\<lambda>t. filter (\<lambda>j. j \<noteq> data_id el) (tier_ids t)) d)"
    unfolding layout_zip tier_ids_detach [OF assms] by simp
  then show ?thesis
    by (simp add: layout_def zip_map_map zip_same_conv_map comp_def)
qed

lemma layout_restore_player:
  assumes "distinct (all_ids d)" and "distinct (map list_id d)"
  shows "layout (restore_player_lists k (JString i) d) =
    (if i \<in> set (all_ids d) then move_id k i (layout d) else layout d)"
proof (cases "query_player i d")
  case None
  then have "i \<notin> set (all_ids d)"
    by (simp add: query_player_None_iff)
  with None show ?thesis
    by (simp add: restore_player_lists_def)
next
  case (Some el)
  then have el: "el \<in> set (all_players d)" "data_id el = i"
    by (simp_all add: query_player_Some)
  then have i: "i \<in> set (all_ids d)"
    by (auto simp: all_ids_def)
  have "distinct (map list_id (detach el d))"
    using assms(2) by simp
  then have "append_to_list k el d =
      map (\<lambda>t. if list_id t = k then t\<lparr>players := players t @ [el]\<rparr> else t) (detach el d)"
    unfolding append_to_list_def by (rule map_first_by_key)
  then have "layout (append_to_list k el d) =
      map (\<lambda>(k', xs). (k', if k' = k then xs @ [i] else xs)) (layout (detach el d))"
    using el(2) by (simp add: layout_def tier_ids_def comp_def)
  also have "\<dots> = move_id k i (layout d)"
    unfolding layout_detach [OF assms(1) el(1)] el(2)
    by (simp add: move_id_def comp_def case_prod_beta)
  finally show ?thesis
    using Some i by (simp add: restore_player_lists_def)
qed

lemma move_ids_Nil [simp]: "move_ids k [] v = v"
  by (induction v) (auto simp: move_ids_def)

lemma move_ids_move_id:
  assumes "i \<notin> set js"
  shows "move_ids k js (move_id k i v) = move_ids k (i # js) v"
proof -
  have a: "filter (\<lambda>j. j \<notin> set js) (filter (\<lambda>j. j \<noteq> i) xs) = filter (\<lambda>j. j \<noteq> i \<and> j \<notin> set js) xs"
    for xs :: "string list"
    by (induction xs) auto
  show ?thesis
    using assms by (induction v) (auto simp: move_ids_def move_id_def a)
qed

lemma all_ids_layout: "all_ids d = concat (map snd (layout d))"
  by (simp add: all_ids_concat layout_def comp_def)

lemma list_ids_layout: "map list_id d = map fst (layout d)"
  by (simp add: layout_def comp_def)

lemma restore_players_layout:
  assumes "distinct (all_ids d)" and "distinct (map list_id d)" and "k \<in> set (map list_id d)"
    and "distinct js"
  shows "layout (foldl (\<lambda>d' i. restore_player_lists k i d') d (map JString js)) =
    move_ids k (filter (\<lambda>i. i \<in> set (all_ids d)) js) (layout d)"
  using assms
proof (induction js arbitrary: d)
  case Nil
  then show ?case by simp
next
  case (Cons i js)
  let ?d1 = "restore_player_lists k (JString i) d"
  from restore_player_players [OF Cons.prems(3), of "JString i"]
  have m: "mset (all_players ?d1) = mset (all_players d)" and l: "map list_id ?d1 = map list_id d"
    by simp_all
  from m have "mset (all_ids ?d1) = mset (all_ids d)"
    by (simp add: mset_all_ids)
  from mset_ids_distinct_set [OF this] Cons.prems(1)
  have d1: "distinct (all_ids ?d1)" and s1: "set (all_ids ?d1) = set (all_ids d)"
    by simp_all
  have ih: "layout (foldl (\<lambda>d' i. restore_player_lists k i d') ?d1 (map JString js)) =
      move_ids k (filter (\<lambda>i. i \<in> set (all_ids d)) js) (layout ?d1)"
    using Cons.IH [OF d1] l Cons.prems(2,3,4) s1 by simp
  have i: "i \<notin> set (filter (\<lambda>i. i \<in> set (all_ids d)) js)"
    using Cons.prems(4) by simp
  show ?case
  proof (cases "i \<in> set (all_ids d)")
    case True
    with ih layout_restore_player [OF Cons.prems(1,2), of k i] move_ids_move_id [OF i] show ?thesis
      by simp
  next
    case False
    with ih layout_restore_player [OF Cons.prems(1,2), of k i] show ?thesis
      by simp
  qed
qed

lemma load_entries_layout:
  assumes "distinct (all_ids d)" and "distinct (map list_id d)" and "\<forall>e \<in> set es. distinct (snd e)"
  shows "\<exists>d'. load_entries_lists (json_entries es) d = Inr d' \<and> layout d' = restore_entries es (layout d)"
  using assms
proof (induction es arbitrary: d)
  case Nil
  then show ?case by (simp add: json_entries_def)
next
  case (Cons e es)
  obtain k js where e: "e = (k, js)" by (cases e)
  show ?case
  proof (cases "find_list k d")
    case None
    then have "k \<notin> set (map fst (layout d))"
      using find_list_iff [of k d] by (simp add: list_ids_layout)
    with None Cons e show ?thesis
      by (simp add: json_entries_def)
  next
    case (Some l)
    then have k: "k \<in> set (map list_id d)"
      using find_list_iff [of k d] by simp
    let ?d1 = "foldl (\<lambda>d' i. restore_player_lists k i d') d (map JString js)"
    have js: "distinct js"
      using Cons.prems(3) e by simp
    from restore_players_players [OF k, of "map JString js"]
    have m: "mset (all_players ?d1) = mset (all_players d)" and l: "map list_id ?d1 = map list_id d"
      by simp_all
    from m have "mset (all_ids ?d1) = mset (all_ids d)"
      by (simp add: mset_all_ids)
    from mset_ids_distinct_set [OF this] Cons.prems(1)
    have d1: "distinct (all_ids ?d1)"
      by simp
    have "\<exists>d'. load_entries_lists (json_entries es) ?d1 = Inr d' \<and> layout d' = restore_entries es (layout ?d1)"
      using Cons.IH [OF d1] l Cons.prems(2,3) by simp
    moreover have "layout ?d1 = move_ids k (filter (\<lambda>i. i \<in> set (concat (map snd (layout d)))) js) (layout d)"
      using restore_players_layout [OF Cons.prems(1,2) k js] by (simp add: all_ids_layout)
    moreover have "k \<in> set (map fst (layout d))"
      using k by (simp add: list_ids_layout)
    ultimately show ?thesis
      using Some e by (simp add: json_entries_def)
  qed
qed

lemma keys_move_ids [simp]: "map fst (move_ids k js v) = map fst v"
  by (induction v) (auto simp: move_ids_def)

lemma ids_move_ids:
  assumes "k \<in> set (map fst v)" and "set js \<subseteq> set (concat (map snd v))"
  shows "set (concat (map snd (move_ids k js v))) = set (concat (map snd v))"
proof
  show "set (concat (map snd (move_ids k js v))) \<subseteq> set (concat (map snd v))"
  proof
    fix x assume "x \<in> set (concat (map snd (move_ids k js v)))"
    then obtain k' xs where "(k', xs) \<in> set v"
      "x \<in> set (if k' = k then filter (\<lambda>j. j \<notin> set js) xs @ js else filter (\<lambda>j. j \<notin> set js) xs)"
      by (auto simp: move_ids_def)
    then have "x \<in> set xs \<or> x \<in> set js"
      by (auto split: if_splits)
    with \<open>(k', xs) \<in> set v\<close> assms(2) show "x \<in> set (concat (map snd v))"
      by force
  qed
next
  show "set (concat (map snd v)) \<subseteq> set (concat (map snd (move_ids k js v)))"
  proof
    fix x assume "x \<in> set (concat (map snd v))"
    then obtain k' xs where e: "(k', xs) \<in> set v" "x \<in> set xs" by auto
    from assms(1) obtain ys where k: "(k, ys) \<in> set v" by auto
    show "x \<in> set (concat (map snd (move_ids k js v)))"
    proof (cases "x \<in> set js")
      case True
      have "(k, filter (\<lambda>j. j \<notin> set js) ys @ js) \<in> set (move_ids k js v)"
        using k by (force simp: move_ids_def)
      with True show ?thesis by force
    next
      case False
      have "(k', if k' = k then filter (\<lambda>j. j \<notin> set js) xs @ js else filter (\<lambda>j. j \<notin> set js) xs)
          \<in> set (move_ids k js v)"
        using e(1) by (force simp: move_ids_def)
      moreover have "x \<in> set (if k' = k then filter (\<lambda>j. j \<notin> set js) xs @ js else filter (\<lambda>j. j \<notin> set js) xs)"
        using False e(2) by simp
      ultimately show ?thesis by force
    qed
  qed
qed

lemma restore_step_filter:
  assumes "set xs \<subseteq> A"
  shows "filter (\<lambda>j. j \<notin> R) (filter (\<lambda>j. j \<notin> set (filter (\<lambda>i. i \<in> A) js)) xs) =
    filter (\<lambda>j. j \<notin> set js \<union> R) xs"
  using assms by (induction xs) auto

lemma restore_step_kept:
  assumes "set js \<inter> R = {}"
  shows "filter (\<lambda>j. j \<notin> R) (filter (\<lambda>i. i \<in> A) js) = filter (\<lambda>i. i \<in> A) js"
  using assms by (induction js) auto

lemma order_in_Nil [simp]: "order_in k [] = []"
  by (simp add: order_in_def)

lemma order_in_Cons: "order_in k' ((k, js) # es) = (if k' = k then js else order_in k' es)"
  by (simp add: order_in_def)

lemma order_in_absent:
  assumes "k \<notin> set (map fst es)"
  shows "order_in k es = []"
proof -
  have "map_of es k = None"
    using assms by (simp add: map_of_eq_None_iff)
  then show ?thesis
    by (simp add: order_in_def)
qed

lemma restored_ids_Nil [simp]: "restored_ids [] v = []"
  by (simp add: restored_ids_def)

lemma restored_ids_Cons:
  "restored_ids ((k, js) # es) v = (if k \<in> set (map fst v) then js else []) @ restored_ids es v"
  by (simp add: restored_ids_def)

lemma restored_ids_subset: "set (restored_ids es v) \<subseteq> set (concat (map snd es))"
  by (auto simp: restored_ids_def)

lemma restored_ids_keys: "map fst v' = map fst v \<Longrightarrow> restored_ids es v' = restored_ids es v"
  by (simp add: restored_ids_def)

lemma restore_entries_closed:
  assumes "distinct (map fst es)" and "distinct (concat (map snd es))"
  shows "restore_entries es v =
    map (\<lambda>(k', xs). (k', filter (\<lambda>j. j \<notin> set (restored_ids es v)) xs @
                         filter (\<lambda>j. j \<in> set (concat (map snd v))) (order_in k' es))) v"
  using assms
proof (induction es arbitrary: v)
  case Nil
  show ?case by (simp add: case_prod_beta)
next
  case (Cons e es)
  obtain k js where e: "e = (k, js)" by (cases e)
  let ?A = "set (concat (map snd v))"
  let ?J = "filter (\<lambda>i. i \<in> ?A) js"
  have dk: "distinct (map fst es)" and dc: "distinct (concat (map snd es))"
    and kf: "k \<notin> set (map fst es)" and disj: "set js \<inter> set (concat (map snd es)) = {}"
    using Cons.prems e by auto
  show ?case
  proof (cases "k \<in> set (map fst v)")
    case False
    have "restore_entries (e # es) v = restore_entries es v"
      using False e by simp
    also have "\<dots> = map (\<lambda>(k', xs). (k', filter (\<lambda>j. j \<notin> set (restored_ids es v)) xs @
                         filter (\<lambda>j. j \<in> ?A) (order_in k' es))) v"
      using Cons.IH [OF dk dc] .
    also have "\<dots> = map (\<lambda>(k', xs). (k', filter (\<lambda>j. j \<notin> set (restored_ids (e # es) v)) xs @
                         filter (\<lambda>j. j \<in> ?A) (order_in k' (e # es)))) v"
    proof (rule map_cong [OF refl])
      fix x assume x: "x \<in> set v"
      obtain k' xs where kx: "x = (k', xs)" by (cases x)
      with x have "k' \<in> set (map fst v)" by force
      with False have "k' \<noteq> k" by auto
      with False show "(case x of (k', xs) \<Rightarrow> (k', filter (\<lambda>j. j \<notin> set (restored_ids es v)) xs @
                         filter (\<lambda>j. j \<in> ?A) (order_in k' es))) =
          (case x of (k', xs) \<Rightarrow> (k', filter (\<lambda>j. j \<notin> set (restored_ids (e # es) v)) xs @
                         filter (\<lambda>j. j \<in> ?A) (order_in k' (e # es))))"
        unfolding kx e by (simp add: restored_ids_Cons order_in_Cons)
    qed
    finally show ?thesis .
  next
    case True
    let ?v1 = "move_ids k ?J v"
    let ?R = "set (restored_ids es v)"
    have keys: "map fst ?v1 = map fst v" by simp
    have ids: "set (concat (map snd ?v1)) = ?A"
      by (rule ids_move_ids [OF True]) auto
    have r: "restored_ids es ?v1 = restored_ids es v"
      using keys by (rule restored_ids_keys)
    have disjR: "set js \<inter> ?R = {}"
      using disj restored_ids_subset [of es v] by blast
    have "restore_entries (e # es) v = restore_entries es ?v1"
      using True e by simp
    also have "\<dots> = map (\<lambda>(k', xs). (k', filter (\<lambda>j. j \<notin> ?R) xs @
                         filter (\<lambda>j. j \<in> ?A) (order_in k' es))) ?v1"
      using Cons.IH [OF dk dc, of ?v1] unfolding r ids .
    also have "\<dots> = map (\<lambda>(k', xs). (k', filter (\<lambda>j. j \<notin> set (restored_ids (e # es) v)) xs @
                         filter (\<lambda>j. j \<in> ?A) (order_in k' (e # es)))) v"
      unfolding move_ids_def map_map
    proof (rule map_cong [OF refl])
      fix x assume x: "x \<in> set v"
      obtain k' xs where kx: "x = (k', xs)" by (cases x)
      with x have sub: "set xs \<subseteq> ?A" by force
      have f1: "filter (\<lambda>j. j \<notin> ?R) (filter (\<lambda>j. j \<notin> set ?J) xs) = filter (\<lambda>j. j \<notin> set js \<union> ?R) xs"
        using sub by (rule restore_step_filter)
      have f2: "filter (\<lambda>j. j \<notin> ?R) ?J = ?J"
        using disjR by (rule restore_step_kept)
      have o: "order_in k es = []"
        using kf by (rule order_in_absent)
      show "((\<lambda>(k', xs). (k', filter (\<lambda>j. j \<notin> ?R) xs @ filter (\<lambda>j. j \<in> ?A) (order_in k' es))) \<circ>
            (\<lambda>(k', xs). (k', if k' = k then filter (\<lambda>j. j \<notin> set ?J) xs @ ?J else filter (\<lambda>j. j \<notin> set ?J) xs))) x =
          (case x of (k', xs) \<Rightarrow> (k', filter (\<lambda>j. j \<notin> set (restored_ids (e # es) v)) xs @
                         filter (\<lambda>j. j \<in> ?A) (order_in k' (e # es))))"
        unfolding kx e using True f1 f2 o
        by (simp add: restored_ids_Cons order_in_Cons)
    qed
    finally show ?thesis .
  qed
qed

subsection \<open>What is saved, and the page before the rankings are restored\<close>

lemma set_property_new: "k \<notin> set (map fst kvs) \<Longrightarrow> set_property k v kvs = kvs @ [(k, v)]"
  by (induction kvs) auto

lemma tiers_object_from:
  "distinct (map fst acc @ map list_id d) \<Longrightarrow>
     foldl (\<lambda>tiers t. set_property (list_id t) (JArray (map JString (tier_ids t))) tiers) acc d =
       acc @ json_entries (layout d)"
proof (induction d arbitrary: acc)
  case Nil
  then show ?case by (simp add: json_entries_def layout_def)
next
  case (Cons t d)
  let ?e = "(list_id t, JArray (map JString (tier_ids t)))"
  from Cons.prems have new: "list_id t \<notin> set (map fst acc)" by auto
  from Cons.prems have "distinct (map fst (acc @ [?e]) @ map list_id d)" by auto
  from Cons.IH [OF this] set_property_new [OF new] show ?case
    by (simp add: json_entries_def layout_def)
qed

lemma tiers_object_layout: "distinct (map list_id d) \<Longrightarrow> tiers_object d = json_entries (layout d)"
  using tiers_object_from [of "[]" d] by (simp add: tiers_object_def)

lemma layout_render_player_new:
  assumes "distinct (map list_id d)" and "p_id p \<notin> set (all_ids d)"
  shows "layout (render_player_lists p d) =
    map (\<lambda>(k, xs). (k, if k = ''tier-unranked'' then xs @ [p_id p] else xs)) (layout d)"
proof -
  let ?el = "createPlayerElement (p_id p) p"
  have "data_id ?el = p_id p" by simp
  with assms(2) have "?el \<notin> set (all_players d)"
    unfolding all_ids_def by (metis image_eqI image_set)
  then have "detach ?el d = d" by (rule detach_absent)
  then have "append_to_list ''tier-unranked'' ?el d =
      map (\<lambda>t. if list_id t = ''tier-unranked'' then t\<lparr>players := players t @ [?el]\<rparr> else t) d"
    using map_first_by_key [OF assms(1)] by (simp add: append_to_list_def)
  with assms(2) show ?thesis
    by (simp add: render_player_lists_def query_player_None_iff layout_def tier_ids_def comp_def)
qed

lemma layout_render_players:
  assumes "distinct (map list_id d)" and "''tier-unranked'' \<in> set (map list_id d)"
    and "distinct (map p_id ps)" and "set (map p_id ps) \<inter> set (all_ids d) = {}"
  shows "layout (foldl (\<lambda>d p. render_player_lists p d) d ps) =
    map (\<lambda>(k, xs). (k, if k = ''tier-unranked'' then xs @ map p_id ps else xs)) (layout d)"
  using assms
proof (induction ps arbitrary: d)
  case Nil
  then show ?case by (simp add: case_prod_beta cong: if_cong)
next
  case (Cons p ps)
  let ?d1 = "render_player_lists p d"
  from Cons.prems(4) have new: "p_id p \<notin> set (all_ids d)" by auto
  have l1: "layout ?d1 = map (\<lambda>(k, xs). (k, if k = ''tier-unranked'' then xs @ [p_id p] else xs)) (layout d)"
    using Cons.prems(1) new by (rule layout_render_player_new)
  have "mset (all_ids ?d1) = add_mset (p_id p) (mset (all_ids d))"
    using render_player_ids [OF Cons.prems(2), of p] new by simp
  then have "set_mset (mset (all_ids ?d1)) = insert (p_id p) (set (all_ids d))"
    by simp
  then have s1: "set (all_ids ?d1) = insert (p_id p) (set (all_ids d))"
    by simp
  have "layout (foldl (\<lambda>d p. render_player_lists p d) ?d1 ps) =
      map (\<lambda>(k, xs). (k, if k = ''tier-unranked'' then xs @ map p_id ps else xs)) (layout ?d1)"
    using Cons.prems s1 by (intro Cons.IH) auto
  then show ?case
    unfolding l1 by (simp add: comp_def case_prod_beta)
qed

lemma order_of_layout: "order_of k d = order_in k (layout d)"
  by (induction d) (simp_all add: order_of_def order_in_def find_list_def layout_def)

lemma order_in_mapped:
  "order_in k (map (\<lambda>(k', xs). (k', g k' xs)) v) = (if k \<in> set (map fst v) then g k (order_in k v) else [])"
  by (induction v) (auto simp: order_in_def)

lemma distinct_pool_ids:
  assumes "distinct (map fst playersObj)"
  shows "distinct (map p_id (build_allPlayers lc playersObj))"
proof -
  have "map p_id (map with_id playersObj) = map fst playersObj"
    by (simp add: with_id_def comp_def)
  with assms have "distinct (map p_id (filter wanted_position (map with_id playersObj)))"
    by (metis distinct_map_filter)
  moreover have "mset (map p_id (build_allPlayers lc playersObj)) =
      mset (map p_id (filter wanted_position (map with_id playersObj)))"
    by (simp add: build_allPlayers_def)
  ultimately show ?thesis
    by (metis mset_eq_imp_distinct_iff)
qed

lemma layout_updateRanks [simp]: "layout (updateRanks d) = layout d"
  unfolding layout_zip by simp

subsection \<open>The round trip\<close>

lemma order_in_empty_markup:
  assumes "all_players html = []"
  shows "order_in k (layout html) = []"
proof -
  have "\<forall>t \<in> set html. players t = []"
    using assms by (simp add: all_players_def)
  then have "\<forall>t \<in> set html. tier_ids t = []"
    by (simp add: tier_ids_def)
  then have "order_of k html = []"
    by (auto simp: order_of_def find_list_def split: option.splits dest: find_Some_in_set)
  then show ?thesis
    by (simp add: order_of_layout)
qed

lemma orders_distinct:
  assumes "distinct (all_ids d)"
  shows "\<forall>e \<in> set (layout d). distinct (snd e)"
proof -
  have "distinct (concat (map tier_ids d))"
    using assms by (simp add: all_ids_concat)
  then have "\<forall>t \<in> set d. distinct (tier_ids t)"
    by (auto simp: distinct_concat_iff)
  then show ?thesis
    by (auto simp: layout_def)
qed

lemma restored_ids_layout:
  assumes "map fst v = map list_id html"
  shows "restored_ids (layout d) v = restorable html d"
  using assms by (simp add: restored_ids_def restorable_def layout_def filter_map comp_def)

lemma loadRankings_saved:
  assumes "rankings s = Parses (JObject (json_entries es))"
    and "load_entries_lists (json_entries es) (document s) = Inr d'"
    and "strays (elsewhere s) = []" and "names_none_of (elsewhere s) (rankings s)"
  shows "loadRankings s = Inr (s\<lparr>document := d'\<rparr>)"
  using assms(1,2)
  by (simp add: loadRankings_on_lists [OF assms(3,4)] parse_rankings_def falsy_def Object_entries_def)

lemma keys_json_entries [simp]: "map fst (json_entries es) = map fst es"
  by (simp add: json_entries_def comp_def case_prod_beta)

lemma names_none_of_saved:
  assumes "list_all (\<lambda>k. k \<notin> set (map fst elements)) (map fst es)"
  shows "names_none_of elements (Parses (JObject (json_entries es)))"
proof -
  have "\<forall>e \<in> set (json_entries es). fst e \<notin> set (map fst elements)"
    using assms keys_json_entries [of es] unfolding list_all_iff by (metis image_eqI list.set_map)
  then show ?thesis
    by (simp add: names_none_of_def parse_rankings_def Object_entries_def list_all_iff)
qed

lemma reload_layout:
  assumes d_ids: "distinct (all_ids (document s))"
    and d_lists: "distinct (map list_id (document s))"
    and writable: "\<not> storage_full s"
    and empty: "all_players html = []"
    and h_lists: "distinct (map list_id html)"
    and unr: "''tier-unranked'' \<in> set (map list_id html)"
    and keys: "distinct (map fst playersObj)"
    and lists: "list_all (\<lambda>k. k \<notin> set (map fst page_elements)) (map list_id (document s))"
  shows "\<exists>d'. page_load lc html (rankings (saveRankings s)) full playersObj =
        Inr ((fresh_page html (rankings (saveRankings s)) full)
              \<lparr>allPlayers := build_allPlayers lc playersObj, document := updateRanks d'\<rparr>) \<and>
      set (all_ids d') = p_id ` set (build_allPlayers lc playersObj) \<and>
      layout d' =
        map (\<lambda>(k, xs). (k,
            filter (\<lambda>j. j \<notin> set (restorable html (document s))) xs @
            filter (\<lambda>j. j \<in> p_id ` set (build_allPlayers lc playersObj)) (order_in k (layout (document s)))))
          (map (\<lambda>(k, xs). (k, if k = ''tier-unranked'' then xs @ map p_id (build_allPlayers lc playersObj) else xs))
            (layout html))"
proof -
  let ?pool = "build_allPlayers lc playersObj"
  let ?es = "layout (document s)"
  let ?item = "rankings (saveRankings s)"
  let ?d0 = "foldl (\<lambda>d p. render_player_lists p d) html ?pool"
  let ?s2 = "(fresh_page html ?item full)\<lparr>allPlayers := ?pool, document := ?d0\<rparr>"
  have item: "?item = Parses (JObject (json_entries ?es))"
    using writable tiers_object_layout [OF d_lists] by (simp add: saveRankings_def)
  have h_ids: "all_ids html = []"
    using empty by (simp add: all_ids_def)
  from unr obtain u where u: "find_list ''tier-unranked'' html = Some u"
    using find_list_iff [of "''tier-unranked''" html] by auto
  have st: "strays (elsewhere (fresh_page html ?item full)) = []"
    by (simp add: fresh_page_def strays_def page_elements_def)
  have ul: "''tier-unranked'' \<in> set (map list_id (document (fresh_page html ?item full)))"
    using unr by (simp add: fresh_page_def)
  have pl: "page_load lc html ?item full playersObj = load_then_rank ?s2"
    unfolding page_load_def populateUnranked_on_lists [OF st ul] by (simp add: fresh_page_def)
  have st2: "strays (elsewhere ?s2) = []"
    using st by simp
  have "names_none_of page_elements (Parses (JObject (json_entries ?es)))"
    using lists by (intro names_none_of_saved) (simp add: list_ids_layout [symmetric])
  then have nm2: "names_none_of (elsewhere ?s2) (rankings ?s2)"
    using item by (simp add: fresh_page_def)
  have pool_ids: "distinct (map p_id ?pool)"
    using keys by (rule distinct_pool_ids)
  have l0: "layout ?d0 =
      map (\<lambda>(k, xs). (k, if k = ''tier-unranked'' then xs @ map p_id ?pool else xs)) (layout html)"
    using h_lists unr pool_ids by (rule layout_render_players) (simp add: h_ids)
  from render_players_ids [OF unr, of ?pool] h_ids
  have d0: "distinct (all_ids ?d0)" and s0: "set (all_ids ?d0) = p_id ` set ?pool"
    and k0: "map list_id ?d0 = map list_id html"
    by simp_all
  have k0': "distinct (map list_id ?d0)"
    using k0 h_lists by simp
  from load_entries_layout [OF d0 k0' orders_distinct [OF d_ids]]
  obtain d' where le: "load_entries_lists (json_entries ?es) ?d0 = Inr d'"
    and l': "layout d' = restore_entries ?es (layout ?d0)"
    by blast
  have lr: "loadRankings ?s2 = Inr (?s2\<lparr>document := d'\<rparr>)"
    using item le st2 nm2 by (intro loadRankings_saved) (simp_all add: fresh_page_def)
  have res: "page_load lc html ?item full playersObj =
      Inr ((fresh_page html ?item full)\<lparr>allPlayers := ?pool, document := updateRanks d'\<rparr>)"
    unfolding pl by (simp add: load_then_rank_def lr)
  have "mset (all_players (document (state_after (loadRankings ?s2)))) = mset (all_players (document ?s2))"
    using loadRankings_players [OF st2 nm2] by simp
  then have "mset (all_ids d') = mset (all_ids ?d0)"
    unfolding lr by (simp add: state_after_def mset_all_ids)
  from mset_ids_distinct_set [OF this] s0 have s': "set (all_ids d') = p_id ` set ?pool"
    by simp
  have e_keys: "distinct (map fst ?es)"
    using d_lists by (simp add: list_ids_layout [symmetric])
  have e_ids: "distinct (concat (map snd ?es))"
    using d_ids by (simp add: all_ids_layout)
  have r: "restored_ids ?es (layout ?d0) = restorable html (document s)"
    by (rule restored_ids_layout) (simp add: list_ids_layout [symmetric] k0)
  have a0: "set (concat (map snd (layout ?d0))) = p_id ` set ?pool"
    using s0 by (simp add: all_ids_layout)
  have "layout d' =
      map (\<lambda>(k, xs). (k,
            filter (\<lambda>j. j \<notin> set (restorable html (document s))) xs @
            filter (\<lambda>j. j \<in> p_id ` set ?pool) (order_in k ?es))) (layout ?d0)"
    unfolding l' restore_entries_closed [OF e_keys e_ids] r a0 ..
  with res s' show ?thesis
    unfolding l0 by blast
qed

text \<open>
  For the lists that the markup has, saving and loading again restores the orders. Let the
  saved page hold no id twice and no two lists with the same id, let none of its lists have
  the id of one of the elements \<open>page_elements\<close>, let storage accept the write, and let the
  page be loaded again from a markup that holds no players, has the list \<open>tier-unranked\<close> and
  no two lists with the same id, with a fetched mapping that has no key twice and gives the
  pool. Then the load returns, the page has the lists of the markup,
  and for every list of the markup other than the unranked one the order is the saved order of
  the list with that id, restricted to the ids of the pool (empty when no such list was
  saved). The unranked list holds first, in the order of the pool, the ids of the pool that were
  not saved under a list of the markup, and then its own saved order restricted to the pool.
  A tier that the markup does not have is not created: its candidates stay in the unranked
  list. The page holds the ids of the pool and no other, so a saved id that is no longer in
  the pool is in no tier.
\<close>

lemma save_then_reload_restores_orders:
  assumes "distinct (all_ids (document s))"
    and "distinct (map list_id (document s))"
    and "\<not> storage_full s"
    and "all_players html = []"
    and "distinct (map list_id html)"
    and "''tier-unranked'' \<in> set (map list_id html)"
    and "distinct (map fst playersObj)"
    and "list_all (\<lambda>k. k \<notin> set (map fst page_elements)) (map list_id (document s))"
  shows "page_load lc html (rankings (saveRankings s)) full playersObj =
      Inr (reloaded lc html full playersObj s) \<and>
    map list_id (document (reloaded lc html full playersObj s)) = map list_id html \<and>
    (\<forall>k \<in> set (map list_id html).
       order_of k (document (reloaded lc html full playersObj s)) =
         (if k = ''tier-unranked''
          then filter (\<lambda>i. i \<notin> set (restorable html (document s))) (map p_id (build_allPlayers lc playersObj))
          else []) @
         filter (\<lambda>i. i \<in> p_id ` set (build_allPlayers lc playersObj)) (order_of k (document s))) \<and>
    set (all_ids (document (reloaded lc html full playersObj s))) = p_id ` set (build_allPlayers lc playersObj)"
proof -
  let ?pool = "build_allPlayers lc playersObj"
  let ?R = "set (restorable html (document s))"
  let ?g = "\<lambda>k xs. filter (\<lambda>j. j \<notin> ?R) xs @ filter (\<lambda>j. j \<in> p_id ` set ?pool) (order_in k (layout (document s)))"
  let ?h = "\<lambda>k xs. if k = ''tier-unranked'' then xs @ map p_id ?pool else xs"
  from reload_layout [OF assms, of lc full] obtain d' where
    res: "page_load lc html (rankings (saveRankings s)) full playersObj =
        Inr ((fresh_page html (rankings (saveRankings s)) full)\<lparr>allPlayers := ?pool, document := updateRanks d'\<rparr>)"
    and ids: "set (all_ids d') = p_id ` set ?pool"
    and lay: "layout d' = map (\<lambda>(k, xs). (k, ?g k xs)) (map (\<lambda>(k, xs). (k, ?h k xs)) (layout html))"
    by blast
  have doc: "document (reloaded lc html full playersObj s) = updateRanks d'"
    by (simp add: reloaded_def res state_after_def)
  have a: "page_load lc html (rankings (saveRankings s)) full playersObj = Inr (reloaded lc html full playersObj s)"
    by (simp add: reloaded_def res state_after_def)
  have "map fst (layout d') = map fst (layout html)"
    unfolding lay by (simp add: comp_def case_prod_beta)
  then have b: "map list_id (document (reloaded lc html full playersObj s)) = map list_id html"
    unfolding doc by (simp add: list_ids_layout)
  have c: "order_of k (document (reloaded lc html full playersObj s)) =
         (if k = ''tier-unranked'' then filter (\<lambda>i. i \<notin> ?R) (map p_id ?pool) else []) @
         filter (\<lambda>i. i \<in> p_id ` set ?pool) (order_of k (document s))"
    if k: "k \<in> set (map list_id html)" for k
  proof -
    have k1: "k \<in> set (map fst (layout html))"
      using k by (simp add: list_ids_layout)
    then have k2: "k \<in> set (map fst (map (\<lambda>(k, xs). (k, ?h k xs)) (layout html)))"
      by (simp add: comp_def case_prod_beta)
    have "order_in k (map (\<lambda>(k, xs). (k, ?h k xs)) (layout html)) = ?h k (order_in k (layout html))"
      using order_in_mapped [of k ?h "layout html"] k1 by simp
    also have "\<dots> = (if k = ''tier-unranked'' then map p_id ?pool else [])"
      by (simp add: order_in_empty_markup [OF assms(4)])
    finally have o: "order_in k (map (\<lambda>(k, xs). (k, ?h k xs)) (layout html)) =
        (if k = ''tier-unranked'' then map p_id ?pool else [])" .
    have "order_of k (updateRanks d') = order_in k (layout d')"
      by (simp add: order_of_layout)
    also have "\<dots> = ?g k (order_in k (map (\<lambda>(k, xs). (k, ?h k xs)) (layout html)))"
      unfolding lay using order_in_mapped [of k ?g "map (\<lambda>(k, xs). (k, ?h k xs)) (layout html)"] k2
      by simp
    also have "\<dots> = (if k = ''tier-unranked'' then filter (\<lambda>i. i \<notin> ?R) (map p_id ?pool) else []) @
         filter (\<lambda>i. i \<in> p_id ` set ?pool) (order_of k (document s))"
      unfolding o by (simp add: order_of_layout)
    finally show ?thesis
      unfolding doc .
  qed
  have d: "set (all_ids (document (reloaded lc html full playersObj s))) = p_id ` set ?pool"
    unfolding doc using ids by simp
  from a b c d show ?thesis
    by blast
qed

lemma save_then_reload_restores_orders_example:
  "restorable html_example (document saved_session) = [''4'', ''1''] \<and>
   order_of ''tier-1'' (document reloaded_session) = [''4''] \<and>
   order_of ''tier-unranked'' (document reloaded_session) = [''3'', ''1'']"
proof -
  have h: "distinct (all_ids (document saved_session))" "distinct (map list_id (document saved_session))"
    "\<not> storage_full saved_session" "all_players html_example = []" "distinct (map list_id html_example)"
    "''tier-unranked'' \<in> set (map list_id html_example)" "distinct (map fst fetched_example)"
    "list_all (\<lambda>k. k \<notin> set (map fst page_elements)) (map list_id (document saved_session))"
    by code_simp+
  have pool: "map p_id (build_allPlayers compare_codes fetched_example) = [''4'', ''3'', ''1'']"
    by code_simp
  then have pool_set: "p_id ` set (build_allPlayers compare_codes fetched_example) = {''4'', ''3'', ''1''}"
    by (metis image_set list.simps(15) set_empty2 empty_set)
  have r: "restorable html_example (document saved_session) = [''4'', ''1'']"
    by code_simp
  have o: "order_of ''tier-1'' (document saved_session) = [''4'']"
    "order_of ''tier-unranked'' (document saved_session) = [''1'']"
    by code_simp+
  have k: "''tier-1'' \<in> set (map list_id html_example)"
    by code_simp
  note T = save_then_reload_restores_orders [OF h, of compare_codes False,
      THEN conjunct2, THEN conjunct2, THEN conjunct1, rule_format]
  have "order_of ''tier-1'' (document reloaded_session) = [''4'']"
    using T [OF k] unfolding reloaded_session_def pool pool_set r o by simp
  moreover have "order_of ''tier-unranked'' (document reloaded_session) = [''3'', ''1'']"
    using T [OF h(6)] unfolding reloaded_session_def pool pool_set r o by simp
  ultimately show ?thesis
    using r by simp
qed

text \<open>
  C3. Saving and loading again does not reproduce the order of a tier that was created with
  the add-tier button. \<open>saveRankings\<close> stores the order of every list of the page, the added
  ones too, and the handler of the button schedules a save; but \<open>loadRankings\<close> skips an entry
  whose list the page does not have, and nothing creates the tiers of the stored item again.
  In the example session tier 2 holds candidate 3 when the rankings are saved; the page that is
  loaded again has no tier 2 and shows candidate 3 in the unranked tier, although candidate 3
  is still in the pool. The next save then stores the page without tier 2.
\<close>

theorem round_trip_loses_added_tier:
  "map list_id (document saved_session) = [''tier-1'', ''tier-2'', ''tier-unranked''] \<and>
   map tier_ids (document saved_session) = [[''4''], [''3''], [''1'']] \<and>
   map p_id (allPlayers reloaded_session) = [''4'', ''3'', ''1''] \<and>
   map list_id (document reloaded_session) = [''tier-1'', ''tier-unranked''] \<and>
   map tier_ids (document reloaded_session) = [[''4''], [''3'', ''1'']] \<and>
   \<not> round_trip_reproduces (document saved_session) (map p_id (allPlayers reloaded_session))
       (document reloaded_session) \<and>
   rankings (handle SaveButton reloaded_session) =
     Parses (JObject [(''tier-1'', JArray [JString ''4'']),
                      (''tier-unranked'', JArray [JString ''3'', JString ''1''])])"
  by code_simp

subsection \<open>Where a manual rank lands\<close>

lemma remove1_nth:
  assumes "distinct ps" and "c < length ps"
  shows "remove1 (ps ! c) ps = take c ps @ drop (Suc c) ps"
proof -
  have ps: "ps = take c ps @ ps ! c # drop (Suc c) ps"
    using assms(2) by (rule id_take_nth_drop)
  have "ps ! c \<notin> set (take c ps)"
    using assms by (metis distinct_take id_take_nth_drop not_distinct_conv_prefix)
  then have "remove1 (ps ! c) (take c ps @ ps ! c # drop (Suc c) ps) = take c ps @ drop (Suc c) ps"
    by (simp add: remove1_append)
  with ps show ?thesis by simp
qed

lemma takeWhile_until_nth:
  assumes "distinct xs" and "n < length xs"
  shows "takeWhile (\<lambda>x. x \<noteq> xs ! n) xs = take n xs"
proof (rule takeWhile_eq_take_P_nth)
  fix i assume "i < n" "i < length xs"
  with assms show "xs ! i \<noteq> xs ! n"
    by (simp add: nth_eq_iff_index_eq)
next
  show "\<not> xs ! n \<noteq> xs ! n" by simp
qed

lemma insertBefore_lands:
  assumes "distinct ps" and "c < length ps" and "r < length ps" and "r \<noteq> c"
  shows "insertBefore (ps ! c) (Some (ps ! r)) ps =
    take (if r < c then r else r - 1) (remove1 (ps ! c) ps) @ ps ! c #
    drop (if r < c then r else r - 1) (remove1 (ps ! c) ps)"
proof -
  let ?rest = "remove1 (ps ! c) ps"
  let ?n = "if r < c then r else r - 1"
  have rest: "?rest = take c ps @ drop (Suc c) ps"
    using assms(1,2) by (rule remove1_nth)
  have len: "length ?rest = length ps - 1"
    using assms(2) by (simp add: length_remove1)
  have n: "?n < length ?rest"
    using assms len by auto
  have at: "?rest ! ?n = ps ! r"
    using assms unfolding rest by (auto simp: nth_append)
  have d: "distinct ?rest"
    using assms(1) by simp
  have ne: "ps ! r \<noteq> ps ! c"
    using assms by (simp add: nth_eq_iff_index_eq)
  have tw: "takeWhile (\<lambda>p. p \<noteq> ps ! r) ?rest = take ?n ?rest"
    using takeWhile_until_nth [OF d n] unfolding at .
  have dw: "dropWhile (\<lambda>p. p \<noteq> ps ! r) ?rest = drop ?n ?rest"
    using tw n by (metis dropWhile_eq_drop length_take min.absorb2 less_imp_le_nat)
  show ?thesis
    using ne tw dw by (simp add: insertBefore_def Let_def)
qed

lemma indexOf_ids:
  "indexOf i ps =
     (if i \<in> set (map data_id ps) then int (length (takeWhile (\<lambda>j. j \<noteq> i) (map data_id ps))) else - 1)"
  by (simp add: indexOf_def takeWhile_map comp_def)

lemma index_found:
  assumes "i \<in> set (map data_id ps)"
  shows "length (takeWhile (\<lambda>p. data_id p \<noteq> i) ps) < length ps \<and>
    find (\<lambda>p. data_id p = i) ps = Some (ps ! length (takeWhile (\<lambda>p. data_id p \<noteq> i) ps))"
proof -
  let ?c = "length (takeWhile (\<lambda>p. data_id p \<noteq> i) ps)"
  from assms have "\<exists>p \<in> set ps. \<not> data_id p \<noteq> i" by auto
  then have "takeWhile (\<lambda>p. data_id p \<noteq> i) ps \<noteq> ps"
    by (simp add: takeWhile_eq_all_conv)
  moreover have "?c \<le> length ps"
    by (rule length_takeWhile_le)
  ultimately have c: "?c < length ps"
    by (metis le_neq_implies_less takeWhile_eq_take take_all order_refl)
  then have at: "data_id (ps ! ?c) = i"
    using nth_length_takeWhile [of "\<lambda>p. data_id p \<noteq> i" ps] by simp
  have before: "\<forall>j < ?c. \<not> data_id (ps ! j) = i"
  proof (intro allI impI)
    fix j assume j: "j < ?c"
    then have "takeWhile (\<lambda>p. data_id p \<noteq> i) ps ! j \<in> set (takeWhile (\<lambda>p. data_id p \<noteq> i) ps)"
      by (rule nth_mem)
    then have "data_id (takeWhile (\<lambda>p. data_id p \<noteq> i) ps ! j) \<noteq> i"
      by (rule set_takeWhileD [THEN conjunct2])
    with j show "\<not> data_id (ps ! j) = i"
      by (simp add: takeWhile_nth)
  qed
  from c at before have "find (\<lambda>p. data_id p = i) ps = Some (ps ! ?c)"
    unfolding find_Some_iff by blast
  with c show ?thesis by simp
qed

lemma newRank_range: "0 < n \<Longrightarrow> 1 \<le> newRank v n \<and> newRank v n \<le> int n"
  by (auto simp: newRank_def Let_def split: option.splits)

lemma find_after_map:
  assumes "\<And>x. P (g x) = P x"
  shows "find P (map g xs) = map_option g (find P xs)"
  using assms by (induction xs) auto

lemma closest_tier_updateRanks:
  "closest_tier i (updateRanks d) =
     map_option (\<lambda>t. if data_tier t = Unranked then t else t\<lparr>players := number_players (players t)\<rparr>)
       (closest_tier i d)"
  unfolding closest_tier_def updateRanks_def
  by (rule find_after_map) (simp add: tier_ids_def del: set_map)

text \<open>
  Where the handler puts the candidate when it moves it: with \<open>r\<close> the requested rank brought
  into range and \<open>c\<close> the index the candidate has, the candidate lands at index \<open>r - 1\<close> when it
  moves up (\<open>r - 1 < c\<close>) and at index \<open>r - 2\<close>, one place short, when it moves down.
\<close>

lemma manual_rank_lands:
  assumes ct: "closest_tier i (document s) = Some tier"
    and ranked: "data_tier tier \<noteq> Unranked"
    and dist: "distinct (tier_ids tier)"
    and moves: "indexOf i (players tier) \<noteq> newRank v (length (players tier)) - 1"
  shows "\<exists>tier'. closest_tier i (document (handleRankInputChange i v s)) = Some tier' \<and>
    length (players tier') = length (players tier) \<and>
    indexOf i (players tier') =
      (if newRank v (length (players tier)) - 1 < indexOf i (players tier)
       then newRank v (length (players tier)) - 1
       else newRank v (length (players tier)) - 2)"
proof -
  let ?ps = "players tier"
  let ?P = "\<lambda>t. i \<in> set (tier_ids t)"
  let ?c = "length (takeWhile (\<lambda>p. data_id p \<noteq> i) ?ps)"
  let ?r = "newRank v (length ?ps)"
  have f: "find ?P (document s) = Some tier"
    using ct by (simp add: closest_tier_def)
  then have mem: "i \<in> set (map data_id ?ps)"
    using find_Some_in_set [OF f] by (simp add: tier_ids_def)
  from index_found [OF mem] have c: "?c < length ?ps"
    and el: "find (\<lambda>p. data_id p = i) ?ps = Some (?ps ! ?c)"
    by simp_all
  have idx: "indexOf i ?ps = int ?c"
    using mem by (simp add: indexOf_def)
  from c have "0 < length ?ps" by linarith
  from newRank_range [OF this, of v] have r: "1 \<le> ?r" "?r \<le> int (length ?ps)"
    by simp_all
  let ?k = "nat (?r - 1)"
  have k: "?k < length ?ps" "int ?k = ?r - 1"
    using r by simp_all
  have kc: "?k \<noteq> ?c"
    using moves idx k(2) by linarith
  have ref: "nth_or_null ?ps (?r - 1) = Some (?ps ! ?k)"
    using r by (simp add: nth_or_null_def)
  have dps: "distinct ?ps"
    using dist by (simp add: tier_ids_def distinct_map)
  let ?m = "if ?k < ?c then ?k else ?k - 1"
  let ?rest = "remove1 (?ps ! ?c) ?ps"
  let ?ps' = "take ?m ?rest @ ?ps ! ?c # drop ?m ?rest"
  have ins: "insertBefore (?ps ! ?c) (Some (?ps ! ?k)) ?ps = ?ps'"
    using dps c k(1) kc by (rule insertBefore_lands)
  let ?f = "\<lambda>t. t\<lparr>players := insertBefore (?ps ! ?c) (nth_or_null ?ps (?r - 1)) (players t)\<rparr>"
  have doc: "document (handleRankInputChange i v s) = updateRanks (map_first ?P ?f (document s))"
    using ct ranked moves el by (simp add: handleRankInputChange_def Let_def delayedSave_def)
  from map_first_split [OF f, of ?f] obtain pre post where
    pre: "\<forall>x \<in> set pre. \<not> ?P x" and mf: "map_first ?P ?f (document s) = pre @ ?f tier # post"
    by blast
  have len_rest: "length ?rest = length ?ps - 1"
    using c by (simp add: length_remove1)
  have m: "?m \<le> length ?rest"
    using k(1) c kc len_rest by auto
  have ids_rest: "i \<notin> set (map data_id ?rest)"
  proof -
    have "map data_id ?rest = filter (\<lambda>j. j \<noteq> data_id (?ps ! ?c)) (map data_id ?ps)"
      using dist c by (intro ids_remove1) (simp_all add: tier_ids_def)
    moreover have "data_id (?ps ! ?c) = i"
      using el by (metis (mono_tags, lifting) find_Some_in_set)
    ultimately show ?thesis by simp
  qed
  have idi: "data_id (?ps ! ?c) = i"
    using el by (metis (mono_tags, lifting) find_Some_in_set)
  define t1 where "t1 = ?f tier"
  have ftier: "players t1 = ?ps'" and t1_tier: "data_tier t1 = data_tier tier"
    using ins ref by (simp_all add: t1_def)
  have "i \<in> set (tier_ids t1)"
    unfolding tier_ids_def ftier using idi by simp
  with pre have "find ?P (pre @ t1 # post) = Some t1"
    by (induction pre) auto
  then have "closest_tier i (map_first ?P ?f (document s)) = Some t1"
    unfolding closest_tier_def mf t1_def .
  then have ct': "closest_tier i (document (handleRankInputChange i v s)) =
      Some (t1\<lparr>players := number_players (players t1)\<rparr>)"
    unfolding doc closest_tier_updateRanks using ranked t1_tier by simp
  define m where "m = ?m"
  define rest where "rest = ?rest"
  define e where "e = ?ps ! ?c"
  have ps': "?ps' = take m rest @ e # drop m rest"
    by (simp only: m_def rest_def e_def)
  have m': "m \<le> length rest"
    unfolding m_def rest_def by (rule m)
  have e': "data_id e = i"
    unfolding e_def by (rule idi)
  have rest': "i \<notin> set (map data_id rest)"
    unfolding rest_def by (rule ids_rest)
  have len': "length rest = length ?ps - 1"
    unfolding rest_def by (rule len_rest)
  have "set (take m rest) \<subseteq> set rest"
    by (rule set_take_subset)
  with rest' have "\<forall>j \<in> set (map data_id (take m rest)). j \<noteq> i"
    by auto
  then have "takeWhile (\<lambda>j. j \<noteq> i) (map data_id (take m rest) @ i # map data_id (drop m rest)) =
      map data_id (take m rest)"
    by (simp add: takeWhile_append2 del: set_map)
  then have tw: "takeWhile (\<lambda>j. j \<noteq> i) (map data_id (take m rest @ e # drop m rest)) =
      map data_id (take m rest)"
    using e' by simp
  have "indexOf i (number_players (take m rest @ e # drop m rest)) = int m"
    unfolding indexOf_ids ids_number_players tw using e' m' by simp
  moreover have "int m = (if ?r - 1 < indexOf i ?ps then ?r - 1 else ?r - 2)"
    unfolding m_def using idx k kc r by auto
  moreover have "length (number_players (take m rest @ e # drop m rest)) = length ?ps"
    using m' len' c by simp
  ultimately show ?thesis
    unfolding ct' ftier ps' by simp
qed

subsection \<open>The unranked tier stays last\<close>

lemma unranked_last_iff:
  "unranked_last d \<longleftrightarrow>
     (\<exists>numbered u. d = numbered @ [u] \<and> data_tier u = Unranked \<and> (\<forall>t \<in> set numbered. data_tier t \<noteq> Unranked))"
proof
  assume "unranked_last d"
  then have "d = butlast d @ [last d] \<and> data_tier (last d) = Unranked \<and>
      (\<forall>t \<in> set (butlast d). data_tier t \<noteq> Unranked)"
    by (simp add: unranked_last_def list_all_iff)
  then show "\<exists>numbered u. d = numbered @ [u] \<and> data_tier u = Unranked \<and> (\<forall>t \<in> set numbered. data_tier t \<noteq> Unranked)"
    by blast
next
  assume "\<exists>numbered u. d = numbered @ [u] \<and> data_tier u = Unranked \<and> (\<forall>t \<in> set numbered. data_tier t \<noteq> Unranked)"
  then show "unranked_last d"
    by (auto simp: unranked_last_def list_all_iff)
qed

lemma all_numbered_iff:
  "list_all (\<lambda>t. data_tier t \<noteq> Unranked) ys \<longleftrightarrow> Unranked \<notin> set (map data_tier ys)"
  by (induction ys) auto

lemma unranked_last_cong:
  assumes "map data_tier d' = map data_tier d"
  shows "unranked_last d' = unranked_last d"
proof -
  have "unranked_last x \<longleftrightarrow>
      (map data_tier x \<noteq> [] \<and> last (map data_tier x) = Unranked \<and> Unranked \<notin> set (butlast (map data_tier x)))"
    for x
    by (cases "x = []") (simp_all add: unranked_last_def all_numbered_iff last_map map_butlast del: set_map)
  moreover have "(d' = []) = (d = [])"
    using assms by (metis map_is_Nil_conv)
  ultimately show ?thesis
    using assms by simp
qed

lemma unranked_last_createTier: "unranked_last d \<Longrightarrow> unranked_last (createTier n d)"
proof -
  assume "unranked_last d"
  then obtain numbered u where d: "d = numbered @ [u]" "data_tier u = Unranked"
    "\<forall>t \<in> set numbered. data_tier t \<noteq> Unranked"
    unfolding unranked_last_iff by blast
  let ?new = "\<lparr> data_tier = Numbered n, list_id = ''tier-'' @ show_int n, players = [] \<rparr>"
  have "createTier n d = (numbered @ [?new]) @ [u]"
    using createTier_before_unranked [OF d(2,3), of n] d(1) by simp
  moreover have "\<forall>t \<in> set (numbered @ [?new]). data_tier t \<noteq> Unranked"
    using d(3) by simp
  ultimately show ?thesis
    unfolding unranked_last_iff using d(2) by blast
qed

lemma data_tiers_updateRanks [simp]: "map data_tier (updateRanks d) = map data_tier d"
  by (simp add: updateRanks_def)

lemma data_tiers_detach_page [simp]: "map data_tier (fst (detach_page el pg)) = map data_tier (fst pg)"
  by (simp add: detach_page_def)

lemma data_tiers_appendChild [simp]:
  "map data_tier (fst (appendChild k el pg)) = map data_tier (fst pg)"
  by (simp add: appendChild_def Let_def data_tiers_map_first)

lemma data_tiers_render_player [simp]: "map data_tier (fst (render_player p pg)) = map data_tier (fst pg)"
  by (simp add: render_player_def)

lemma data_tiers_render_players [simp]:
  "map data_tier (fst (foldl (\<lambda>pg p. render_player p pg) pg ps)) = map data_tier (fst pg)"
  by (induction ps arbitrary: pg) simp_all

lemma data_tiers_restore_player [simp]:
  "map data_tier (fst (restore_player k i pg)) = map data_tier (fst pg)"
  by (simp add: restore_player_def split: option.splits)

lemma data_tiers_restore_players [simp]:
  "map data_tier (fst (foldl (\<lambda>pg' i. restore_player k i pg') pg ids)) = map data_tier (fst pg)"
  by (induction ids arbitrary: pg) simp_all

lemma data_tiers_load_entries:
  "map data_tier (fst (case load_entries es pg of Inl (e, pg') \<Rightarrow> pg' | Inr pg' \<Rightarrow> pg')) =
     map data_tier (fst pg)"
proof (induction es pg rule: load_entries.induct)
  case (1 pg)
  then show ?case by simp
next
  case (2 tierId playerIds rest pg)
  show ?case
  proof (cases "getElementById tierId pg")
    case None
    with 2 show ?thesis by simp
  next
    case (Some l)
    show ?thesis
    proof (cases playerIds)
      case (JArray ids)
      with 2(2) [OF Some JArray] Some show ?thesis by simp
    qed (use Some in simp_all)
  qed
qed

lemma data_tiers_loadRankings:
  "map data_tier (document (state_after (loadRankings s))) = map data_tier (document s)"
proof (cases "parse_rankings (rankings s)")
  case (Inl e)
  then show ?thesis by (simp add: loadRankings_def state_after_def)
next
  case (Inr saved)
  show ?thesis
  proof (cases "falsy saved")
    case True
    with Inr show ?thesis by (simp add: loadRankings_def state_after_def)
  next
    case False
    with Inr data_tiers_load_entries [of "Object_entries saved" "page_of s"] show ?thesis
      by (auto simp: loadRankings_def state_after_def split: sum.splits prod.splits)
  qed
qed

lemma data_tiers_load_then_rank:
  "map data_tier (document (state_after (load_then_rank s))) = map data_tier (document s)"
proof (cases "loadRankings s")
  case (Inl x)
  with data_tiers_loadRankings [of s] show ?thesis by (simp add: load_then_rank_def)
next
  case (Inr s')
  with data_tiers_loadRankings [of s] show ?thesis by (simp add: load_then_rank_def state_after_def)
qed

lemma data_tiers_populateUnranked:
  "map data_tier (document (state_after (populateUnranked lc obj s))) = map data_tier (document s)"
proof (cases "getElementById ''tier-unranked'' (document s, elsewhere s)")
  case None
  show ?thesis
  proof (cases "list_ex (\<lambda>p. querySelector (p_id p) (document s, elsewhere s) = None) (build_allPlayers lc obj)")
    case True
    with None show ?thesis by (simp add: populateUnranked_def page_of_def Let_def state_after_def)
  next
    case False
    with None data_tiers_load_then_rank [of "s\<lparr>allPlayers := build_allPlayers lc obj\<rparr>"] show ?thesis
      by (simp add: populateUnranked_def page_of_def Let_def)
  qed
next
  case (Some u)
  with data_tiers_load_then_rank [of "put_page
      (foldl (\<lambda>pg p. render_player p pg) (document s, elsewhere s) (build_allPlayers lc obj))
      (s\<lparr>allPlayers := build_allPlayers lc obj\<rparr>)"]
  show ?thesis
    by (simp add: populateUnranked_def page_of_def Let_def)
qed

lemma data_tiers_renderMorePlayers [simp]:
  "map data_tier (document (renderMorePlayers n s)) = map data_tier (document s)"
  by (simp add: renderMorePlayers_def Let_def split: option.splits)

lemma data_tiers_handleRankInputChange [simp]:
  "map data_tier (document (handleRankInputChange i v s)) = map data_tier (document s)"
  by (simp add: handleRankInputChange_def Let_def delayedSave_def data_tiers_map_first split: option.splits)

lemma data_tiers_sortable_drop [simp]: "map data_tier (sortable_drop i k n d) = map data_tier d"
  by (simp add: sortable_drop_def data_tiers_map_first split: option.splits)

lemma data_tiers_set_rank_value [simp]: "map data_tier (set_rank_value i v d) = map data_tier d"
  by (simp add: set_rank_value_def data_tiers_map_first)

lemma data_tiers_type_rank [simp]: "map data_tier (fst (type_rank i v pg)) = map data_tier (fst pg)"
  by (simp add: type_rank_def)

lemma data_tiers_applyFilters [simp]: "map data_tier (document (applyFilters s)) = map data_tier (document s)"
  by (simp add: applyFilters_def)

lemma unranked_last_handle:
  assumes "unranked_last (document s)"
  shows "unranked_last (document (handle e s))"
proof (cases e)
  case AddTier
  with assms show ?thesis
    by (simp add: addTier_click_def delayedSave_def unranked_last_createTier)
next
  case (RankInput i v)
  have "map data_tier (document (handle e s)) = map data_tier (document s)"
    using RankInput by simp
  from unranked_last_cong [OF this] assms show ?thesis by simp
next
  case (Drop i k n)
  have "map data_tier (document (handle e s)) = map data_tier (document s)"
    using Drop by (simp add: sortable_onEnd_def delayedSave_def)
  from unranked_last_cong [OF this] assms show ?thesis by simp
next
  case Scroll
  have "map data_tier (document (handle e s)) = map data_tier (document s)"
    using Scroll by simp
  from unranked_last_cong [OF this] assms show ?thesis by simp
next
  case (FilterInput q)
  have "map data_tier (document (handle e s)) = map data_tier (document s)"
    using FilterInput by (simp add: filter_input_def)
  from unranked_last_cong [OF this] assms show ?thesis by simp
next
  case (PosButton pos)
  have "map data_tier (document (handle e s)) = map data_tier (document s)"
    using PosButton by (simp add: posBtn_click_def)
  from unranked_last_cong [OF this] assms show ?thesis by simp
qed (use assms in simp_all)

text \<open>
  The layout that the add-tier button needs holds in every state of a page whose markup has
  it: nothing but \<open>createTier\<close> changes the tiers, and \<open>createTier\<close> keeps the unranked tier last.
\<close>

lemma reachable_unranked_last:
  assumes "reachable items others html s" and "unranked_last html"
  shows "unranked_last (document s)"
  using assms(1)
proof (induction rule: reachable.induct)
  case (loaded item localeCompare full playersObj)
  have "map data_tier (document (state_after (page_load_with others localeCompare html item full playersObj))) =
      map data_tier html"
    using data_tiers_populateUnranked [of localeCompare playersObj
        "(fresh_page html item full)\<lparr>elsewhere := page_elements @ others\<rparr>"]
    by (simp add: page_load_with_def fresh_page_def)
  from unranked_last_cong [OF this] assms(2) show ?case by simp
next
  case (handled s e)
  then show ?case by (simp add: unranked_last_handle)
next
  case (revealed s limit)
  have "map data_tier (document (renderMorePlayers limit s)) = map data_tier (document s)"
    by simp
  from unranked_last_cong [OF this] revealed show ?case by simp
next
  case (revealed_initial s)
  have "map data_tier (document (renderInitialPlayers s)) = map data_tier (document s)"
    by (simp add: renderInitialPlayers_def)
  from unranked_last_cong [OF this] revealed_initial show ?case by simp
qed

end
